theory Spec2Isabelle
  imports Complex_Main
begin

section \<open>Loss functions of \<^verbatim>\<open>python/mlx/nn/losses.py\<close>\<close>

text \<open>
  The module is a set of pure functions over the arrays of \<^verbatim>\<open>mlx.core\<close>. An array is
  modelled as its shape together with its elements in row-major order. Floating-point
  elements are idealised as real numbers: the development speaks about which formula is
  evaluated at which position, which shapes come out and which calls raise, not about
  rounding, infinities or NaN. Integer class targets are arrays of \<open>int\<close>.

  A Python exception is a value: every function that can raise returns \<open>error + 'a\<close>,
  with \<open>Inl\<close> the exception. The exceptions of \<^verbatim>\<open>mlx.core\<close> reach Python as
  \<^verbatim>\<open>ValueError\<close>. An \<^verbatim>\<open>assert\<close> statement is executed, as the interpreter does unless
  it is started with optimisation.
\<close>

subsection \<open>Exceptions\<close>

datatype error = AssertionError | ValueError | IndexError

definition ebind :: "error + 'a \<Rightarrow> ('a \<Rightarrow> error + 'b) \<Rightarrow> error + 'b" where
  "ebind m f = (case m of Inl e \<Rightarrow> Inl e | Inr x \<Rightarrow> f x)"

definition raises :: "error + 'a \<Rightarrow> bool" where
  "raises m = (case m of Inl e \<Rightarrow> True | Inr x \<Rightarrow> False)"

subsection \<open>Arrays\<close>

record 'a mx_array =
  shape :: "nat list"
  elems :: "'a list"

definition well_formed :: "'a mx_array \<Rightarrow> bool" where
  "well_formed a = (length (elems a) = prod_list (shape a))"

text \<open>All multi-indices of a shape, in row-major order, and the offset of one of them.\<close>

fun indices_of :: "nat list \<Rightarrow> nat list list" where
  "indices_of [] = [[]]"
| "indices_of (d # ds) = map (\<lambda>(i, ix). i # ix) (List.product [0..<d] (indices_of ds))"

fun flat_index :: "nat list \<Rightarrow> nat list \<Rightarrow> nat" where
  "flat_index (d # ds) (i # ix) = i * prod_list ds + flat_index ds ix"
| "flat_index ds ix = 0"

definition valid_index :: "nat list \<Rightarrow> nat list \<Rightarrow> bool" where
  "valid_index sh ix = list_all2 (\<lambda>i d. i < d) ix sh"

definition item :: "'a mx_array \<Rightarrow> nat list \<Rightarrow> 'a" where
  "item a ix = elems a ! flat_index (shape a) ix"

definition array_of_fn :: "nat list \<Rightarrow> (nat list \<Rightarrow> 'a) \<Rightarrow> 'a mx_array" where
  "array_of_fn sh f = \<lparr>shape = sh, elems = map f (indices_of sh)\<rparr>"

subsection \<open>The operations of \<^verbatim>\<open>mlx.core\<close> that the losses call\<close>

text \<open>
  Modelled from the spec: \<^verbatim>\<open>mlx.core\<close> is not among the source files. The spec asks for
  "a tensor type supporting elementwise arithmetic, broadcasting, log, exp, abs, square,
  sum/mean reduction along an axis, logsumexp along an axis, and gather-along-axis with
  an index tensor". The definitions below follow the NumPy conventions that
  \<^verbatim>\<open>mlx.core\<close> documents for these operations.
\<close>

text \<open>
  Modelled from the spec: broadcasting of two shapes. The shapes are aligned at their
  last dimension; two dimensions are compatible when they are equal or one of them is 1.
\<close>

definition broadcast_dim :: "nat \<Rightarrow> nat \<Rightarrow> error + nat" where
  "broadcast_dim a b =
     (if a = b then Inr a else if a = 1 then Inr b else if b = 1 then Inr a
      else Inl ValueError)"

fun broadcast_rev :: "nat list \<Rightarrow> nat list \<Rightarrow> error + nat list" where
  "broadcast_rev [] ys = Inr ys"
| "broadcast_rev (x # xs) [] = Inr (x # xs)"
| "broadcast_rev (x # xs) (y # ys) =
     ebind (broadcast_dim x y) (\<lambda>d. ebind (broadcast_rev xs ys) (\<lambda>ds. Inr (d # ds)))"

definition broadcast_shapes :: "nat list \<Rightarrow> nat list \<Rightarrow> error + nat list" where
  "broadcast_shapes s t = ebind (broadcast_rev (rev s) (rev t)) (\<lambda>r. Inr (rev r))"

text \<open>
  The index at which an operand of shape \<open>sh\<close> is read for position \<open>ix\<close> of the
  broadcast result: leading dimensions the operand lacks are dropped and a dimension of
  size 1 is read at 0.
\<close>

definition bc_index :: "nat list \<Rightarrow> nat list \<Rightarrow> nat list" where
  "bc_index sh ix =
     map2 (\<lambda>d i. if d = 1 then 0 else i) sh (drop (length ix - length sh) ix)"

text \<open>Modelled from the spec: an elementwise binary operation with broadcasting.\<close>

definition binary_op ::
  "('a \<Rightarrow> 'b \<Rightarrow> 'c) \<Rightarrow> 'a mx_array \<Rightarrow> 'b mx_array \<Rightarrow> error + 'c mx_array" where
  "binary_op f a b =
     ebind (broadcast_shapes (shape a) (shape b)) (\<lambda>sh.
       Inr (array_of_fn sh
         (\<lambda>ix. f (item a (bc_index (shape a) ix)) (item b (bc_index (shape b) ix)))))"

definition add :: "real mx_array \<Rightarrow> real mx_array \<Rightarrow> error + real mx_array" where
  "add = binary_op (\<lambda>x y. x + y)"

definition subtract :: "real mx_array \<Rightarrow> real mx_array \<Rightarrow> error + real mx_array" where
  "subtract = binary_op (\<lambda>x y. x - y)"

definition multiply :: "real mx_array \<Rightarrow> real mx_array \<Rightarrow> error + real mx_array" where
  "multiply = binary_op (\<lambda>x y. x * y)"

text \<open>
  Modelled from the spec: an elementwise unary operation. An operation between an array
  and a Python scalar is one too, since the scalar broadcasts to every position.
\<close>

definition unary_op :: "('a \<Rightarrow> 'b) \<Rightarrow> 'a mx_array \<Rightarrow> 'b mx_array" where
  "unary_op f a = array_of_fn (shape a) (\<lambda>ix. f (item a ix))"

text \<open>Modelled from the spec: \<^verbatim>\<open>mx.where\<close>, with its three operands broadcast together.\<close>

definition mx_where ::
  "bool mx_array \<Rightarrow> 'a mx_array \<Rightarrow> 'a mx_array \<Rightarrow> error + 'a mx_array" where
  "mx_where c x y =
     ebind (broadcast_shapes (shape c) (shape x)) (\<lambda>s.
     ebind (broadcast_shapes s (shape y)) (\<lambda>sh.
       Inr (array_of_fn sh (\<lambda>ix.
         if item c (bc_index (shape c) ix) then item x (bc_index (shape x) ix)
         else item y (bc_index (shape y) ix)))))"

text \<open>
  Modelled from the spec: an axis argument counts from the end when negative and is
  rejected when it names no dimension.
\<close>

definition normalize_axis :: "nat \<Rightarrow> int \<Rightarrow> error + nat" where
  "normalize_axis n axis =
     (let ax = (if axis < 0 then axis + int n else axis)
      in if 0 \<le> ax \<and> ax < int n then Inr (nat ax) else Inl ValueError)"

definition insert_at :: "nat \<Rightarrow> 'a \<Rightarrow> 'a list \<Rightarrow> 'a list" where
  "insert_at ax k ix = take ax ix @ k # drop ax ix"

definition remove_at :: "nat \<Rightarrow> 'a list \<Rightarrow> 'a list" where
  "remove_at ax sh = take ax sh @ drop (Suc ax) sh"

text \<open>
  Modelled from the spec: reduction along one axis. The axis is removed from the shape;
  each position of the result holds \<open>f\<close> of the elements along the axis.
\<close>

definition reduce_axis :: "('a list \<Rightarrow> 'b) \<Rightarrow> 'a mx_array \<Rightarrow> int \<Rightarrow> error + 'b mx_array" where
  "reduce_axis f a axis =
     ebind (normalize_axis (length (shape a)) axis) (\<lambda>ax.
       Inr (array_of_fn (remove_at ax (shape a))
         (\<lambda>ix. f (map (\<lambda>k. item a (insert_at ax k ix)) [0..<shape a ! ax]))))"

definition sum_axis :: "real mx_array \<Rightarrow> int \<Rightarrow> error + real mx_array" where
  "sum_axis = reduce_axis sum_list"

definition mean_axis :: "real mx_array \<Rightarrow> int \<Rightarrow> error + real mx_array" where
  "mean_axis = reduce_axis (\<lambda>xs. sum_list xs / real (length xs))"

text \<open>
  Modelled from the spec (glossary): logsumexp is "log(sum(exp(x)))"; the numerically
  stable evaluation has the same value over the reals.
\<close>

definition logsumexp :: "real mx_array \<Rightarrow> int \<Rightarrow> error + real mx_array" where
  "logsumexp = reduce_axis (\<lambda>xs. ln (sum_list (map exp xs)))"

text \<open>Modelled from the spec: \<^verbatim>\<open>mx.sum\<close> and \<^verbatim>\<open>mx.mean\<close> over all elements, a 0-d array.\<close>

definition sum_all :: "real mx_array \<Rightarrow> real mx_array" where
  "sum_all a = \<lparr>shape = [], elems = [sum_list (elems a)]\<rparr>"

definition mean_all :: "real mx_array \<Rightarrow> real mx_array" where
  "mean_all a = \<lparr>shape = [], elems = [sum_list (elems a) / real (length (elems a))]\<rparr>"

text \<open>
  Modelled from the spec: gather along an axis ("selecting one element per position along
  a given axis using an index tensor"). The index array must have as many dimensions as
  the array; away from the axis the two shapes broadcast, and along the axis the result
  has the extent of the index array. A negative index counts from the end. An index
  beyond the extent of the axis is not checked by the library: the model reads at the
  offset it yields, and the theorems below assume indices in range.
\<close>

fun broadcast_zip :: "nat list \<Rightarrow> nat list \<Rightarrow> error + nat list" where
  "broadcast_zip (a # as) (i # is) =
     ebind (broadcast_dim a i) (\<lambda>d. ebind (broadcast_zip as is) (\<lambda>ds. Inr (d # ds)))"
| "broadcast_zip as is = Inr []"

fun gather_shape :: "nat \<Rightarrow> nat list \<Rightarrow> nat list \<Rightarrow> error + nat list" where
  "gather_shape 0 (a # as) (i # is) = ebind (broadcast_zip as is) (\<lambda>ds. Inr (i # ds))"
| "gather_shape (Suc ax) (a # as) (i # is) =
     ebind (broadcast_dim a i) (\<lambda>d. ebind (gather_shape ax as is) (\<lambda>ds. Inr (d # ds)))"
| "gather_shape ax as is = Inr []"

definition wrap_index :: "nat \<Rightarrow> int \<Rightarrow> nat" where
  "wrap_index n j = nat (if j < 0 then j + int n else j)"

definition take_along_axis :: "'a mx_array \<Rightarrow> int mx_array \<Rightarrow> int \<Rightarrow> error + 'a mx_array" where
  "take_along_axis a indices axis =
     ebind (normalize_axis (length (shape a)) axis) (\<lambda>ax.
       if length (shape indices) \<noteq> length (shape a) then Inl ValueError
       else ebind (gather_shape ax (shape a) (shape indices)) (\<lambda>sh.
         Inr (array_of_fn sh (\<lambda>ix.
           item a ((bc_index (shape a) ix)
             [ax := wrap_index (shape a ! ax) (item indices (bc_index (shape indices) ix))])))))"

text \<open>Modelled from the spec: the index expression \<^verbatim>\<open>a[..., None]\<close> appends a dimension of size 1.\<close>

definition expand_last :: "'a mx_array \<Rightarrow> 'a mx_array" where
  "expand_last a = \<lparr>shape = shape a @ [1], elems = elems a\<rparr>"

text \<open>
  Modelled from the spec: \<^verbatim>\<open>a.squeeze(-1)\<close> removes the last dimension, and is rejected
  when there is none or when its size is not 1.
\<close>

definition squeeze_last :: "'a mx_array \<Rightarrow> error + 'a mx_array" where
  "squeeze_last a =
     (if shape a = [] then Inl ValueError
      else if last (shape a) \<noteq> 1 then Inl ValueError
      else Inr \<lparr>shape = butlast (shape a), elems = elems a\<rparr>)"

text \<open>\<^verbatim>\<open>a.shape[0]\<close>: the shape is a Python tuple, and indexing the empty tuple raises.\<close>

definition shape0 :: "'a mx_array \<Rightarrow> error + nat" where
  "shape0 a = (case shape a of [] \<Rightarrow> Inl IndexError | d # ds \<Rightarrow> Inr d)"

subsection \<open>The source: \<^verbatim>\<open>_reduce\<close>\<close>

definition reduce :: "real mx_array \<Rightarrow> string \<Rightarrow> error + real mx_array" where
  "reduce loss reduction =
     (if reduction = ''mean'' then Inr (mean_all loss)
      else if reduction = ''sum'' then Inr (sum_all loss)
      else if reduction = ''none'' then Inr loss
      else Inl ValueError)"

subsection \<open>The source: \<^verbatim>\<open>cross_entropy\<close>\<close>

definition cross_entropy ::
  "real mx_array \<Rightarrow> int mx_array \<Rightarrow> real mx_array option \<Rightarrow> int \<Rightarrow> real \<Rightarrow> string
     \<Rightarrow> error + real mx_array" where
  "cross_entropy logits targets weights axis label_smoothing reduction =
     (if \<not> (0 \<le> label_smoothing \<and> label_smoothing < 1) then Inl AssertionError
      else
        ebind (shape0 logits) (\<lambda>l0.
        ebind (shape0 targets) (\<lambda>t0.
        if l0 \<noteq> t0 then Inl AssertionError
        else
          ebind (take_along_axis logits (expand_last targets) axis) (\<lambda>gathered.
          ebind (squeeze_last gathered) (\<lambda>score.
          ebind (logsumexp logits axis) (\<lambda>logsumexp_logits.
          ebind
            (if label_smoothing > 0 then
               (let adjusted_score = unary_op (\<lambda>x. (1 - label_smoothing) * x) score
                in ebind (mean_axis logits axis) (\<lambda>mean_logits.
                   let smoothed_loss = unary_op (\<lambda>x. - x * label_smoothing) mean_logits
                   in ebind (subtract logsumexp_logits adjusted_score) (\<lambda>d.
                      add d smoothed_loss)))
             else subtract logsumexp_logits score) (\<lambda>loss.
          ebind
            (case weights of
               None \<Rightarrow> Inr loss
             | Some w \<Rightarrow>
                 if shape w \<noteq> shape targets then Inl ValueError else multiply loss w) (\<lambda>loss.
          reduce loss reduction))))))))"

subsection \<open>The source: \<^verbatim>\<open>binary_cross_entropy\<close>\<close>

definition binary_cross_entropy ::
  "real mx_array \<Rightarrow> real mx_array \<Rightarrow> string \<Rightarrow> error + real mx_array" where
  "binary_cross_entropy inputs targets reduction =
     ebind (multiply (unary_op uminus targets) (unary_op ln inputs)) (\<lambda>l.
     ebind (multiply (unary_op (\<lambda>x. 1 - x) targets)
                     (unary_op ln (unary_op (\<lambda>x. 1 - x) inputs))) (\<lambda>r.
     ebind (subtract l r) (\<lambda>loss.
     reduce loss reduction)))"

subsection \<open>The source: \<^verbatim>\<open>l1_loss\<close>, \<^verbatim>\<open>mse_loss\<close>, \<^verbatim>\<open>nll_loss\<close>, \<^verbatim>\<open>kl_div_loss\<close>\<close>

definition l1_loss ::
  "real mx_array \<Rightarrow> real mx_array \<Rightarrow> string \<Rightarrow> error + real mx_array" where
  "l1_loss predictions targets reduction =
     (if shape predictions \<noteq> shape targets then Inl AssertionError
      else ebind (subtract predictions targets) (\<lambda>d.
           reduce (unary_op abs d) reduction))"

definition mse_loss ::
  "real mx_array \<Rightarrow> real mx_array \<Rightarrow> string \<Rightarrow> error + real mx_array" where
  "mse_loss predictions targets reduction =
     (if shape predictions \<noteq> shape targets then Inl AssertionError
      else ebind (subtract predictions targets) (\<lambda>d.
           reduce (unary_op (\<lambda>x. x\<^sup>2) d) reduction))"

definition nll_loss ::
  "real mx_array \<Rightarrow> int mx_array \<Rightarrow> int \<Rightarrow> string \<Rightarrow> error + real mx_array" where
  "nll_loss inputs targets axis reduction =
     ebind (take_along_axis inputs (expand_last targets) axis) (\<lambda>gathered.
     ebind (squeeze_last gathered) (\<lambda>s.
     reduce (unary_op uminus s) reduction))"

definition kl_div_loss ::
  "real mx_array \<Rightarrow> real mx_array \<Rightarrow> int \<Rightarrow> string \<Rightarrow> error + real mx_array" where
  "kl_div_loss inputs targets axis reduction =
     ebind (subtract targets inputs) (\<lambda>d.
     ebind (multiply (unary_op exp targets) d) (\<lambda>p.
     ebind (sum_axis p axis) (\<lambda>loss.
     reduce loss reduction)))"

subsection \<open>The source: \<^verbatim>\<open>smooth_l1_loss\<close>\<close>

definition smooth_l1_loss ::
  "real mx_array \<Rightarrow> real mx_array \<Rightarrow> real \<Rightarrow> string \<Rightarrow> error + real mx_array" where
  "smooth_l1_loss predictions targets beta reduction =
     (if shape predictions \<noteq> shape targets then Inl AssertionError
      else ebind (subtract predictions targets) (\<lambda>diff.
           ebind (mx_where (unary_op (\<lambda>x. x < beta) diff)
                    (unary_op (\<lambda>x. 0.5 * x\<^sup>2 / beta) diff)
                    (unary_op (\<lambda>x. \<bar>x\<bar> - 0.5 * beta) diff)) (\<lambda>loss.
           reduce loss reduction)))"

subsection \<open>The source: \<^verbatim>\<open>_make_loss_module\<close> and \<^verbatim>\<open>BCELoss\<close>\<close>

text \<open>
  The decorator \<^verbatim>\<open>_make_loss_module(f)\<close> gives the class a \<^verbatim>\<open>__call__\<close> that forwards
  to \<open>f\<close> with the stored reduction. The object's only attribute set by the
  constructor is \<^verbatim>\<open>reduction\<close>.
\<close>

record loss_module =
  reduction :: string

definition make_loss_module ::
  "('i \<Rightarrow> 't \<Rightarrow> string \<Rightarrow> 'r) \<Rightarrow> loss_module \<Rightarrow> 'i \<Rightarrow> 't \<Rightarrow> 'r" where
  "make_loss_module f = (\<lambda>self inputs targets. f inputs targets (reduction self))"

definition BCELoss :: "string \<Rightarrow> loss_module" where
  "BCELoss r = \<lparr>reduction = r\<rparr>"

definition BCELoss_call ::
  "loss_module \<Rightarrow> real mx_array \<Rightarrow> real mx_array \<Rightarrow> error + real mx_array" where
  "BCELoss_call = make_loss_module binary_cross_entropy"

subsection \<open>The documented formula of the smooth L1 loss\<close>

text \<open>
  The docstring of \<^verbatim>\<open>smooth_l1_loss\<close> and the spec give the loss of one difference as
  "0.5 * diff ** 2 / beta" if "|diff| < beta", and "|diff| - 0.5 * beta" otherwise.
\<close>

definition smooth_l1_formula :: "real \<Rightarrow> real \<Rightarrow> real" where
  "smooth_l1_formula beta diff =
     (if \<bar>diff\<bar> < beta then 0.5 * diff\<^sup>2 / beta else \<bar>diff\<bar> - 0.5 * beta)"

subsection \<open>The failure conditions stated for the cross entropy\<close>

text \<open>
  The spec lists when \<^verbatim>\<open>cross_entropy\<close> fails: the label smoothing is outside
  \<open>[0, 1)\<close>, or \<^verbatim>\<open>logits.shape[0]\<close> differs from \<^verbatim>\<open>targets.shape[0]\<close>, or weights are
  given with a shape other than that of targets, or the reduction string is not one of
  "none", "mean" and "sum".
\<close>

definition stated_failure ::
  "real mx_array \<Rightarrow> int mx_array \<Rightarrow> real mx_array option \<Rightarrow> real \<Rightarrow> string \<Rightarrow> bool" where
  "stated_failure logits targets weights label_smoothing r =
     (\<not> (0 \<le> label_smoothing \<and> label_smoothing < 1)
      \<or> shape0 logits \<noteq> shape0 targets
      \<or> (case weights of None \<Rightarrow> False | Some w \<Rightarrow> shape w \<noteq> shape targets)
      \<or> r \<notin> {''none'', ''mean'', ''sum''})"

section \<open>Basic facts about the array model\<close>

lemma ebind_Inr [simp]: "ebind (Inr x) f = f x"
  by (simp add: ebind_def)

lemma ebind_Inl [simp]: "ebind (Inl e) f = Inl e"
  by (simp add: ebind_def)

lemma raises_simps [simp]: "raises (Inl e)" "\<not> raises (Inr x)"
  by (simp_all add: raises_def)

lemma ebind_eq_Inr: "ebind m f = Inr y \<longleftrightarrow> (\<exists>x. m = Inr x \<and> f x = Inr y)"
  by (cases m) simp_all

lemma length_indices_of: "length (indices_of sh) = prod_list sh"
  by (induction sh) simp_all

lemma valid_index_Nil [simp]: "valid_index [] ix \<longleftrightarrow> ix = []"
  by (simp add: valid_index_def)

lemma valid_index_Cons:
  "valid_index (d # ds) ix \<longleftrightarrow> (\<exists>i js. ix = i # js \<and> i < d \<and> valid_index ds js)"
  by (cases ix) (simp_all add: valid_index_def)

lemma valid_index_length: "valid_index sh ix \<Longrightarrow> length ix = length sh"
  by (simp add: valid_index_def list_all2_lengthD)

lemma flat_index_less: "valid_index sh ix \<Longrightarrow> flat_index sh ix < prod_list sh"
proof (induction sh arbitrary: ix)
  case Nil
  then show ?case by simp
next
  case (Cons d ds)
  then obtain i js where ix: "ix = i # js" and i: "i < d" and js: "valid_index ds js"
    by (auto simp: valid_index_Cons)
  have "flat_index ds js < prod_list ds" using Cons.IH js by simp
  then have "i * prod_list ds + flat_index ds js < Suc i * prod_list ds" by simp
  also have "\<dots> \<le> d * prod_list ds" using i by (intro mult_le_mono1) simp
  finally show ?case by (simp add: ix)
qed

lemma nth_indices_of: "valid_index sh ix \<Longrightarrow> indices_of sh ! flat_index sh ix = ix"
proof (induction sh arbitrary: ix)
  case Nil
  then show ?case by simp
next
  case (Cons d ds)
  then obtain i js where ix: "ix = i # js" and i: "i < d" and js: "valid_index ds js"
    by (auto simp: valid_index_Cons)
  let ?p = "prod_list ds"
  let ?n = "i * ?p + flat_index ds js"
  have fl: "flat_index ds js < ?p" using js by (rule flat_index_less)
  have lt: "?n < length [0..<d] * length (indices_of ds)"
    using flat_index_less [of "d # ds" ix] Cons.prems by (simp add: ix length_indices_of)
  have dv: "?n div ?p = i" using fl by simp
  have md: "?n mod ?p = flat_index ds js" using fl by simp
  have "List.product [0..<d] (indices_of ds) ! ?n = (i, js)"
    using lt i fl Cons.IH [OF js] by (simp add: product_nth length_indices_of dv md)
  then show ?case using lt by (simp add: ix)
qed

lemma shape_array_of_fn [simp]: "shape (array_of_fn sh f) = sh"
  by (simp add: array_of_fn_def)

lemma item_array_of_fn: "valid_index sh ix \<Longrightarrow> item (array_of_fn sh f) ix = f ix"
  using flat_index_less [of sh ix] nth_indices_of [of sh ix]
  by (simp add: item_def array_of_fn_def length_indices_of)

lemma well_formed_array_of_fn [simp]: "well_formed (array_of_fn sh f)"
  by (simp add: well_formed_def array_of_fn_def length_indices_of)

subsection \<open>Broadcasting\<close>

lemma broadcast_dim_same [simp]: "broadcast_dim d d = Inr d"
  by (simp add: broadcast_dim_def)

lemma broadcast_dim_commute: "broadcast_dim a b = broadcast_dim b a"
  by (auto simp: broadcast_dim_def)

lemma broadcast_dim_absorb: "broadcast_dim a b = Inr d \<Longrightarrow> broadcast_dim a d = Inr d"
  by (auto simp: broadcast_dim_def split: if_splits)

lemma broadcast_dim_read:
  "broadcast_dim a b = Inr d \<Longrightarrow> j < d \<Longrightarrow>
     (if a = 1 then 0 else j) < a \<and> (if b = 1 then 0 else j) < b"
  by (auto simp: broadcast_dim_def split: if_splits)

lemma broadcast_rev_same [simp]: "broadcast_rev xs xs = Inr xs"
  by (induction xs) simp_all

lemma broadcast_rev_commute: "broadcast_rev xs ys = broadcast_rev ys xs"
proof (induction xs ys rule: broadcast_rev.induct)
  case (1 ys)
  then show ?case by (cases ys) simp_all
next
  case (2 x xs)
  then show ?case by simp
next
  case (3 x xs y ys)
  then show ?case by (simp add: broadcast_dim_commute [of x y])
qed

lemma broadcast_rev_absorb: "broadcast_rev xs ys = Inr r \<Longrightarrow> broadcast_rev xs r = Inr r"
proof (induction xs ys arbitrary: r rule: broadcast_rev.induct)
  case (1 ys)
  then show ?case by simp
next
  case (2 x xs)
  then show ?case by simp
next
  case (3 x xs y ys)
  then obtain d ds where d: "broadcast_dim x y = Inr d" and ds: "broadcast_rev xs ys = Inr ds"
    and r: "r = d # ds"
    by (auto simp: ebind_eq_Inr)
  show ?case using broadcast_dim_absorb [OF d] "3.IH" [OF ds] by (simp add: r)
qed

lemma read_in_range:
  "list_all2 (\<lambda>i d. i < d) jx (ys :: nat list) \<Longrightarrow>
     list_all2 (\<lambda>i d. i < d) (map2 (\<lambda>d i. if d = 1 then 0 else i) ys jx) ys"
  by (induction jx ys rule: list_all2_induct) auto

lemma broadcast_rev_read:
  "broadcast_rev xs ys = Inr r \<Longrightarrow> list_all2 (\<lambda>i d. i < d) jx r \<Longrightarrow>
     list_all2 (\<lambda>i d. i < d) (map2 (\<lambda>d i. if d = 1 then 0 else i) xs jx) xs"
proof (induction xs ys arbitrary: r jx rule: broadcast_rev.induct)
  case (1 ys)
  then show ?case by simp
next
  case (2 x xs)
  then show ?case using read_in_range [of jx "x # xs"] by simp
next
  case (3 x xs y ys)
  then obtain d ds where d: "broadcast_dim x y = Inr d" and ds: "broadcast_rev xs ys = Inr ds"
    and r: "r = d # ds"
    by (auto simp: ebind_eq_Inr)
  from "3.prems"(2) r obtain j js where jx: "jx = j # js" and j: "j < d"
    and js: "list_all2 (\<lambda>i d. i < d) js ds"
    by (cases jx) auto
  show ?case
    using broadcast_dim_read [OF d j] "3.IH" [OF ds js] by (simp add: jx)
qed

lemma broadcast_rev_length:
  "broadcast_rev xs ys = Inr r \<Longrightarrow> length r = max (length xs) (length ys)"
proof (induction xs ys arbitrary: r rule: broadcast_rev.induct)
  case (3 x xs y ys)
  then show ?case by (auto simp: ebind_eq_Inr)
qed auto

lemma zip_take_right: "zip xs (take (length xs) ys) = zip xs ys"
proof (induction xs arbitrary: ys)
  case Nil
  then show ?case by simp
next
  case (Cons x xs)
  then show ?case by (cases ys) simp_all
qed

lemma rev_bc_index:
  assumes "length s \<le> length ix"
  shows "rev (bc_index s ix) = map2 (\<lambda>d i. if d = 1 then 0 else i) (rev s) (rev ix)"
proof -
  let ?zs = "drop (length ix - length s) ix"
  have len: "length s = length ?zs" using assms by simp
  have "rev (bc_index s ix) = map2 (\<lambda>d i. if d = 1 then 0 else i) (rev s) (rev ?zs)"
    unfolding bc_index_def rev_map zip_rev [OF len] ..
  also have "rev ?zs = take (length (rev s)) (rev ix)"
    using assms by (simp add: rev_drop)
  also have "zip (rev s) (take (length (rev s)) (rev ix)) = zip (rev s) (rev ix)"
    by (rule zip_take_right)
  finally show ?thesis .
qed

lemma broadcast_shapes_same [simp]: "broadcast_shapes s s = Inr s"
  by (simp add: broadcast_shapes_def)

lemma broadcast_shapes_commute: "broadcast_shapes s t = broadcast_shapes t s"
  by (simp add: broadcast_shapes_def broadcast_rev_commute [of "rev s"])

lemma broadcast_shapes_absorb:
  "broadcast_shapes s t = Inr sh \<Longrightarrow> broadcast_shapes s sh = Inr sh"
  by (auto simp: broadcast_shapes_def ebind_eq_Inr dest: broadcast_rev_absorb)

lemma bc_index_valid:
  assumes "broadcast_shapes s t = Inr sh" and "valid_index sh ix"
  shows "valid_index s (bc_index s ix)"
proof -
  from assms(1) obtain r where r: "broadcast_rev (rev s) (rev t) = Inr r" and sh: "sh = rev r"
    by (auto simp: broadcast_shapes_def ebind_eq_Inr)
  have ix: "list_all2 (\<lambda>i d. i < d) (rev ix) r"
    using assms(2) by (simp add: valid_index_def sh list_all2_rev1 [symmetric])
  have "length s \<le> length ix"
    using broadcast_rev_length [OF r] valid_index_length [OF assms(2)] by (simp add: sh)
  then have "rev (bc_index s ix) = map2 (\<lambda>d i. if d = 1 then 0 else i) (rev s) (rev ix)"
    by (rule rev_bc_index)
  then have "list_all2 (\<lambda>i d. i < d) (rev (bc_index s ix)) (rev s)"
    using broadcast_rev_read [OF r ix] by simp
  then show ?thesis by (simp add: valid_index_def)
qed

lemma bc_index_valid2:
  "broadcast_shapes s t = Inr sh \<Longrightarrow> valid_index sh ix \<Longrightarrow> valid_index t (bc_index t ix)"
  using bc_index_valid [of t s sh ix] by (simp add: broadcast_shapes_commute)

lemma bc_index_same: "valid_index s ix \<Longrightarrow> bc_index s ix = ix"
proof -
  assume "valid_index s ix"
  then have "list_all2 (\<lambda>i d. i < d) ix s" by (simp add: valid_index_def)
  then have "map2 (\<lambda>d i. if d = 1 then 0 else i) s ix = ix"
    by (induction ix s rule: list_all2_induct) auto
  then show ?thesis using valid_index_length [OF \<open>valid_index s ix\<close>] by (simp add: bc_index_def)
qed

subsection \<open>Elementwise operations\<close>

lemma shape_unary_op [simp]: "shape (unary_op f a) = shape a"
  by (simp add: unary_op_def)

lemma item_unary_op: "valid_index (shape a) ix \<Longrightarrow> item (unary_op f a) ix = f (item a ix)"
  by (simp add: unary_op_def item_array_of_fn)

lemma binary_op_eq_Inr:
  "binary_op f a b = Inr c \<longleftrightarrow>
     (\<exists>sh. broadcast_shapes (shape a) (shape b) = Inr sh \<and>
        c = array_of_fn sh
          (\<lambda>ix. f (item a (bc_index (shape a) ix)) (item b (bc_index (shape b) ix))))"
  by (auto simp: binary_op_def ebind_eq_Inr)

lemma binary_op_Inr:
  "broadcast_shapes (shape a) (shape b) = Inr sh \<Longrightarrow>
     binary_op f a b = Inr (array_of_fn sh
       (\<lambda>ix. f (item a (bc_index (shape a) ix)) (item b (bc_index (shape b) ix))))"
  by (simp add: binary_op_def)

lemma raises_binary_op: "raises (binary_op f a b) \<longleftrightarrow> raises (broadcast_shapes (shape a) (shape b))"
  by (cases "broadcast_shapes (shape a) (shape b)") (simp_all add: binary_op_def)

subsection \<open>Reduction along an axis\<close>

lemma normalize_axis_less: "normalize_axis n axis = Inr ax \<Longrightarrow> ax < n"
  by (auto simp: normalize_axis_def Let_def split: if_splits)

lemma normalize_axis_last:
  "axis = - 1 \<or> axis = int n \<Longrightarrow> normalize_axis (Suc n) axis = Inr n"
  by (auto simp: normalize_axis_def Let_def)

lemma valid_index_insert_at:
  assumes ix: "valid_index (remove_at ax sh) ix" and ax: "ax < length sh" and k: "k < sh ! ax"
  shows "valid_index sh (insert_at ax k ix)"
proof -
  from ix obtain us vs where split: "ix = us @ vs"
    and us: "list_all2 (\<lambda>i d. i < d) us (take ax sh)"
    and vs: "list_all2 (\<lambda>i d. i < d) vs (drop (Suc ax) sh)"
    by (auto simp: valid_index_def remove_at_def list_all2_append2)
  have len: "length us = ax"
    using us ax by (auto dest: list_all2_lengthD)
  have ins: "insert_at ax k ix = us @ k # vs"
    by (simp add: insert_at_def split len)
  have sh: "sh = take ax sh @ sh ! ax # drop (Suc ax) sh"
    using ax by (rule id_take_nth_drop)
  have "list_all2 (\<lambda>i d. i < d) (us @ k # vs) (take ax sh @ sh ! ax # drop (Suc ax) sh)"
    using us vs k by (intro list_all2_appendI) simp_all
  then show ?thesis
    unfolding valid_index_def ins using sh by simp
qed

lemma reduce_axis_Inr:
  "normalize_axis (length (shape a)) axis = Inr ax \<Longrightarrow>
     reduce_axis f a axis = Inr (array_of_fn (remove_at ax (shape a))
       (\<lambda>ix. f (map (\<lambda>k. item a (insert_at ax k ix)) [0..<shape a ! ax])))"
  by (simp add: reduce_axis_def)

lemma sum_list_upt_cong:
  "(\<And>k. k < n \<Longrightarrow> g k = h k) \<Longrightarrow>
     sum_list (map g [0..<n]) = (\<Sum>k<n. (h k :: real))"
proof -
  assume eq: "\<And>k. k < n \<Longrightarrow> g k = h k"
  have "map g [0..<n] = map h [0..<n]" using eq by simp
  then show ?thesis
    by (simp add: interv_sum_list_conv_sum_set_nat atLeast0LessThan)
qed

subsection \<open>The last axis\<close>

lemma flat_index_snoc:
  "length ix = length s \<Longrightarrow> flat_index (s @ [d]) (ix @ [k]) = flat_index s ix * d + k"
proof (induction s arbitrary: ix)
  case Nil
  then show ?case by simp
next
  case (Cons a s)
  then obtain i js where ix: "ix = i # js" and len: "length js = length s"
    by (cases ix) auto
  show ?case using Cons.IH [OF len] by (simp add: ix algebra_simps)
qed

lemma valid_index_snoc:
  "valid_index s ix \<Longrightarrow> k < d \<Longrightarrow> valid_index (s @ [d]) (ix @ [k])"
  unfolding valid_index_def by (intro list_all2_appendI) simp_all

lemma item_expand_last:
  "length ix = length (shape a) \<Longrightarrow> item (expand_last a) (ix @ [0]) = item a ix"
  by (simp add: item_def expand_last_def flat_index_snoc)

lemma squeeze_last_Inr:
  "shape a = s @ [1] \<Longrightarrow> squeeze_last a = Inr \<lparr>shape = s, elems = elems a\<rparr>"
  by (simp add: squeeze_last_def)

lemma item_squeezed:
  "shape a = s @ [1] \<Longrightarrow> length ix = length s \<Longrightarrow>
     item \<lparr>shape = s, elems = elems a\<rparr> ix = item a (ix @ [0])"
  by (simp add: item_def flat_index_snoc)

lemma gather_shape_last: "gather_shape (length s) (s @ [c]) (s @ [i]) = Inr (s @ [i])"
  by (induction s) simp_all

lemma bc_index_snoc:
  assumes "valid_index s ix"
  shows "bc_index (s @ [c]) (ix @ [0]) = ix @ [0]"
proof -
  have len: "length ix = length s" using assms by (rule valid_index_length)
  have "bc_index s ix = ix" using assms by (rule bc_index_same)
  then have "map2 (\<lambda>d i. if d = 1 then 0 else i) s ix = ix"
    using len by (simp add: bc_index_def)
  then show ?thesis using len by (simp add: bc_index_def)
qed

lemma insert_at_end: "length ix = n \<Longrightarrow> insert_at n k ix = ix @ [k]"
  by (simp add: insert_at_def)

lemma remove_at_end: "remove_at (length s) (s @ [c]) = s"
  by (simp add: remove_at_def)

lemma gather_last:
  assumes a: "shape a = s @ [c]" and t: "shape t = s"
    and axis: "axis = - 1 \<or> axis = int (length s)"
  shows "\<exists>score. ebind (take_along_axis a (expand_last t) axis) squeeze_last = Inr score
           \<and> shape score = s
           \<and> (\<forall>ix. valid_index s ix \<longrightarrow>
                 item score ix = item a (ix @ [wrap_index c (item t ix)]))"
proof -
  define g where "g = array_of_fn (s @ [1]) (\<lambda>ix.
    item a ((bc_index (shape a) ix)
      [length s := wrap_index (shape a ! length s)
         (item (expand_last t) (bc_index (shape (expand_last t)) ix))]))"
  have ax: "normalize_axis (length (shape a)) axis = Inr (length s)"
    using normalize_axis_last [OF axis] by (simp add: a)
  have she: "shape (expand_last t) = s @ [1]" by (simp add: expand_last_def t)
  have take: "take_along_axis a (expand_last t) axis = Inr g"
    unfolding take_along_axis_def ax ebind_Inr she
    by (simp add: a gather_shape_last g_def she)
  have shg: "shape g = s @ [1]" by (simp add: g_def)
  let ?score = "\<lparr>shape = s, elems = elems g\<rparr>"
  have run: "ebind (take_along_axis a (expand_last t) axis) squeeze_last = Inr ?score"
    by (simp add: take squeeze_last_Inr [OF shg])
  have val: "item ?score ix = item a (ix @ [wrap_index c (item t ix)])"
    if ix: "valid_index s ix" for ix
  proof -
    have len: "length ix = length s" using ix by (rule valid_index_length)
    have v: "valid_index (s @ [1]) (ix @ [0])" using ix by (rule valid_index_snoc) simp
    have "item ?score ix = item g (ix @ [0])"
      using shg len by (rule item_squeezed)
    also have "\<dots> = item a ((ix @ [0])[length s := wrap_index c (item t ix)])"
      using v len
      by (simp add: g_def item_array_of_fn a she bc_index_snoc [OF ix] item_expand_last t
          nth_append)
    also have "(ix @ [0])[length s := wrap_index c (item t ix)] = ix @ [wrap_index c (item t ix)]"
      using len by (simp add: list_update_append)
    finally show ?thesis .
  qed
  show ?thesis using run val by auto
qed

lemma reduce_last:
  assumes a: "shape a = s @ [c]" and axis: "axis = - 1 \<or> axis = int (length s)"
  shows "\<exists>r. reduce_axis f a axis = Inr r \<and> shape r = s
           \<and> (\<forall>ix. valid_index s ix \<longrightarrow>
                 item r ix = f (map (\<lambda>k. item a (ix @ [k])) [0..<c]))"
proof -
  have ax: "normalize_axis (length (shape a)) axis = Inr (length s)"
    using normalize_axis_last [OF axis] by (simp add: a)
  have "item (array_of_fn s (\<lambda>ix. f (map (\<lambda>k. item a (insert_at (length s) k ix)) [0..<c]))) ix
      = f (map (\<lambda>k. item a (ix @ [k])) [0..<c])"
    if ix: "valid_index s ix" for ix
    using ix valid_index_length [OF ix] by (simp add: item_array_of_fn insert_at_end)
  then show ?thesis
    using reduce_axis_Inr [OF ax, of f] by (simp add: a remove_at_end)
qed


lemma binary_op_same_shape:
  assumes "shape a = s" and "shape b = s"
  shows "\<exists>c. binary_op f a b = Inr c \<and> shape c = s
           \<and> (\<forall>ix. valid_index s ix \<longrightarrow> item c ix = f (item a ix) (item b ix))"
proof -
  have "broadcast_shapes (shape a) (shape b) = Inr s" using assms by simp
  from binary_op_Inr [OF this, of f]
  show ?thesis using assms by (simp add: item_array_of_fn bc_index_same)
qed

lemma shape0_Cons: "shape a = d # ds \<Longrightarrow> shape0 a = Inr d"
  by (simp add: shape0_def)

subsection \<open>Sequencing\<close>

lemma raises_ebind: "raises (ebind m f) \<longleftrightarrow> raises m \<or> (\<exists>x. m = Inr x \<and> raises (f x))"
  by (cases m) simp_all

lemma raises_ebindI: "(\<And>x. raises (f x)) \<Longrightarrow> raises (ebind m f)"
  by (cases m) simp_all

lemma ebind_assoc: "ebind (ebind m f) g = ebind m (\<lambda>x. ebind (f x) g)"
  by (cases m) simp_all

lemma ebind_if: "ebind (if c then a else b) f = (if c then ebind a f else ebind b f)"
  by simp

lemma reduce_none [simp]: "reduce loss ''none'' = Inr loss"
  by (simp add: reduce_def)

section \<open>The reduction helper\<close>

text \<open>
  Claim C2. For every loss array, \<^verbatim>\<open>_reduce\<close> returns the array unchanged for the mode
  "none", the 0-d array holding the mean of all its elements for "mean" (which is the
  average of what "none" returns), the 0-d array holding the sum of all its elements for
  "sum", and raises \<^verbatim>\<open>ValueError\<close> for every other string: it raises exactly when the
  string is not one of the three. (The mean of an array without elements is the quotient
  0 / 0, which the floating-point code evaluates to NaN.)
\<close>

theorem reduce_modes:
  "reduce loss ''none'' = Inr loss
   \<and> reduce loss ''mean'' =
       Inr \<lparr>shape = [], elems = [sum_list (elems loss) / real (length (elems loss))]\<rparr>
   \<and> (\<forall>out. reduce loss ''none'' = Inr out \<longrightarrow> reduce loss ''mean'' = Inr (mean_all out))
   \<and> reduce loss ''sum'' = Inr \<lparr>shape = [], elems = [sum_list (elems loss)]\<rparr>
   \<and> (r \<notin> {''none'', ''mean'', ''sum''} \<longrightarrow> reduce loss r = Inl ValueError)
   \<and> (raises (reduce loss r) \<longleftrightarrow> r \<notin> {''none'', ''mean'', ''sum''})"
  by (simp add: reduce_def mean_all_def sum_all_def)

theorem reduce_modes_witness:
  "reduce \<lparr>shape = [3], elems = [1, 2, 6]\<rparr> ''none'' = Inr \<lparr>shape = [3], elems = [1, 2, 6]\<rparr>
   \<and> reduce \<lparr>shape = [3], elems = [1, 2, 6]\<rparr> ''mean'' = Inr \<lparr>shape = [], elems = [3]\<rparr>
   \<and> reduce \<lparr>shape = [3], elems = [1, 2, 6]\<rparr> ''sum'' = Inr \<lparr>shape = [], elems = [9]\<rparr>
   \<and> ''max'' \<notin> {''none'', ''mean'', ''sum''}
   \<and> reduce \<lparr>shape = [3], elems = [1, 2, 6]\<rparr> ''max'' = Inl ValueError
   \<and> raises (reduce \<lparr>shape = [3], elems = [1, 2, 6]\<rparr> ''max'')"
  using reduce_modes [of "\<lparr>shape = [3], elems = [1, 2, 6]\<rparr>" "''max''"]
  by simp

section \<open>Shape checks of the regression losses\<close>

text \<open>
  Claim C7. Whenever the shapes of predictions and targets are not exactly equal, each of
  \<^verbatim>\<open>l1_loss\<close>, \<^verbatim>\<open>mse_loss\<close> and \<^verbatim>\<open>smooth_l1_loss\<close> raises the assertion's error, whatever
  the other arguments are: nothing is computed, and shapes that would broadcast are
  rejected as well.
\<close>

theorem shape_mismatch_raises:
  assumes "shape predictions \<noteq> shape targets"
  shows "l1_loss predictions targets r = Inl AssertionError
         \<and> mse_loss predictions targets r = Inl AssertionError
         \<and> smooth_l1_loss predictions targets beta r = Inl AssertionError"
  using assms by (simp add: l1_loss_def mse_loss_def smooth_l1_loss_def)

theorem shape_mismatch_raises_witness:
  "shape \<lparr>shape = [2, 1], elems = [1, 2::real]\<rparr> \<noteq> shape \<lparr>shape = [2], elems = [1, 1::real]\<rparr>
   \<and> broadcast_shapes [2, 1] [2] = Inr [2, 2]
   \<and> l1_loss \<lparr>shape = [2, 1], elems = [1, 2]\<rparr> \<lparr>shape = [2], elems = [1, 1]\<rparr> ''mean''
       = Inl AssertionError
   \<and> mse_loss \<lparr>shape = [2, 1], elems = [1, 2]\<rparr> \<lparr>shape = [2], elems = [1, 1]\<rparr> ''mean''
       = Inl AssertionError
   \<and> smooth_l1_loss \<lparr>shape = [2, 1], elems = [1, 2]\<rparr> \<lparr>shape = [2], elems = [1, 1]\<rparr> 1 ''mean''
       = Inl AssertionError"
proof -
  have ne: "shape \<lparr>shape = [2, 1], elems = [1, 2::real]\<rparr> \<noteq> shape \<lparr>shape = [2], elems = [1, 1::real]\<rparr>"
    by simp
  have bc: "broadcast_shapes [2, 1] [2] = Inr [2, 2]"
    by (simp add: broadcast_shapes_def broadcast_dim_def)
  show ?thesis
    using ne bc shape_mismatch_raises [OF ne, of "''mean''" 1] by simp
qed

section \<open>The module wrapper\<close>

text \<open>
  Claim C9. For every reduction mode \<open>r\<close> and all inputs and targets, calling the
  \<^verbatim>\<open>BCELoss\<close> object constructed with \<open>r\<close> returns what
  \<^verbatim>\<open>binary_cross_entropy(inputs, targets, r)\<close> returns, errors included; the call
  reads nothing of the object but the reduction mode stored by the constructor.
\<close>

theorem BCELoss_call_eq:
  "BCELoss_call (BCELoss r) inputs targets = binary_cross_entropy inputs targets r
   \<and> reduction (BCELoss r) = r"
  by (simp add: BCELoss_call_def make_loss_module_def BCELoss_def)

section \<open>Binary cross entropy\<close>

lemma binary_cross_entropy_run:
  assumes "broadcast_shapes (shape inputs) (shape targets) = Inr sh"
  shows "\<exists>loss. (\<forall>r. binary_cross_entropy inputs targets r = reduce loss r)
           \<and> shape loss = sh
           \<and> (\<forall>ix. valid_index sh ix \<longrightarrow>
                 item loss ix =
                   - item targets (bc_index (shape targets) ix)
                       * ln (item inputs (bc_index (shape inputs) ix))
                   - (1 - item targets (bc_index (shape targets) ix))
                       * ln (1 - item inputs (bc_index (shape inputs) ix)))"
proof -
  let ?T = "\<lambda>ix. item targets (bc_index (shape targets) ix)"
  let ?I = "\<lambda>ix. item inputs (bc_index (shape inputs) ix)"
  have ti: "broadcast_shapes (shape targets) (shape inputs) = Inr sh"
    using assms by (simp add: broadcast_shapes_commute)
  define l where "l = array_of_fn sh (\<lambda>ix.
    item (unary_op uminus targets) (bc_index (shape targets) ix)
      * item (unary_op ln inputs) (bc_index (shape inputs) ix))"
  define r where "r = array_of_fn sh (\<lambda>ix.
    item (unary_op (\<lambda>x. 1 - x) targets) (bc_index (shape targets) ix)
      * item (unary_op ln (unary_op (\<lambda>x. 1 - x) inputs)) (bc_index (shape inputs) ix))"
  define loss where "loss = array_of_fn sh (\<lambda>ix.
    item l (bc_index sh ix) - item r (bc_index sh ix))"
  have ml: "multiply (unary_op uminus targets) (unary_op ln inputs) = Inr l"
    unfolding multiply_def l_def using ti by (simp add: binary_op_Inr)
  have mr: "multiply (unary_op (\<lambda>x. 1 - x) targets)
              (unary_op ln (unary_op (\<lambda>x. 1 - x) inputs)) = Inr r"
    unfolding multiply_def r_def using ti by (simp add: binary_op_Inr)
  have sub: "subtract l r = Inr loss"
    unfolding subtract_def loss_def by (simp add: binary_op_Inr l_def r_def)
  have run: "binary_cross_entropy inputs targets r = reduce loss r" for r
    by (simp add: binary_cross_entropy_def ml mr sub)
  have val: "item loss ix = - ?T ix * ln (?I ix) - (1 - ?T ix) * ln (1 - ?I ix)"
    if ix: "valid_index sh ix" for ix
  proof -
    have vt: "valid_index (shape targets) (bc_index (shape targets) ix)"
      using ti ix by (rule bc_index_valid)
    have vi: "valid_index (shape inputs) (bc_index (shape inputs) ix)"
      using assms ix by (rule bc_index_valid)
    have "item l ix = - ?T ix * ln (?I ix)"
      using ix vt vi by (simp add: l_def item_array_of_fn item_unary_op)
    moreover have "item r ix = (1 - ?T ix) * ln (1 - ?I ix)"
      using ix vt vi by (simp add: r_def item_array_of_fn item_unary_op)
    ultimately show ?thesis
      using ix by (simp add: loss_def item_array_of_fn bc_index_same)
  qed
  show ?thesis using run val by (auto simp: loss_def)
qed


text \<open>
  Claim C8. For all inputs and targets whose shapes broadcast, \<^verbatim>\<open>binary_cross_entropy\<close>
  with reduction "none" returns an array of the broadcast shape whose element at every
  position is \<open>- t * ln i - (1 - t) * ln (1 - i)\<close>, where \<open>t\<close> and \<open>i\<close> are the
  elements of targets and inputs read at that position. The logarithms are applied to
  the input element itself and to one minus it: nothing clamps the input first.
\<close>

theorem binary_cross_entropy_formula:
  assumes "broadcast_shapes (shape inputs) (shape targets) = Inr sh"
  shows "\<exists>loss. binary_cross_entropy inputs targets ''none'' = Inr loss
           \<and> shape loss = sh
           \<and> (\<forall>ix. valid_index sh ix \<longrightarrow>
                 item loss ix =
                   - item targets (bc_index (shape targets) ix)
                       * ln (item inputs (bc_index (shape inputs) ix))
                   - (1 - item targets (bc_index (shape targets) ix))
                       * ln (1 - item inputs (bc_index (shape inputs) ix)))"
  using binary_cross_entropy_run [OF assms] by (auto simp: reduce_def)

theorem binary_cross_entropy_formula_witness:
  "broadcast_shapes (shape \<lparr>shape = [2], elems = [1 / 2, 1 / 4 :: real]\<rparr>)
       (shape \<lparr>shape = [1], elems = [1 :: real]\<rparr>) = Inr [2]
   \<and> (\<exists>loss. binary_cross_entropy \<lparr>shape = [2], elems = [1 / 2, 1 / 4]\<rparr>
                 \<lparr>shape = [1], elems = [1]\<rparr> ''none'' = Inr loss
          \<and> shape loss = [2]
          \<and> item loss [0] = - ln (1 / 2)
          \<and> item loss [1] = - ln (1 / 4))"
proof -
  let ?I = "\<lparr>shape = [2], elems = [1 / 2, 1 / 4 :: real]\<rparr>"
  let ?T = "\<lparr>shape = [1], elems = [1 :: real]\<rparr>"
  have bs: "broadcast_shapes (shape ?I) (shape ?T) = Inr [2]"
    by (simp add: broadcast_shapes_def broadcast_dim_def)
  from binary_cross_entropy_formula [OF bs]
  obtain loss where run: "binary_cross_entropy ?I ?T ''none'' = Inr loss"
    and sh: "shape loss = [2]"
    and val: "\<And>ix. valid_index [2] ix \<Longrightarrow>
           item loss ix =
             - item ?T (bc_index (shape ?T) ix) * ln (item ?I (bc_index (shape ?I) ix))
             - (1 - item ?T (bc_index (shape ?T) ix))
                 * ln (1 - item ?I (bc_index (shape ?I) ix))"
    by blast
  have v0: "item loss [0] = - ln (1 / 2)"
    using val [of "[0]"] by (simp add: valid_index_def bc_index_def item_def)
  have v1: "item loss [1] = - ln (1 / 4)"
    using val [of "[1]"] by (simp add: valid_index_def bc_index_def item_def)
  show ?thesis using bs run sh v0 v1 by blast
qed

text \<open>
  Claim C10. \<^verbatim>\<open>binary_cross_entropy\<close> validates nothing about its arrays: for all inputs
  and targets whose shapes broadcast, whatever their values, the call is the reduction
  helper applied to one elementwise loss array. So it returns an array for each of the
  reductions "none", "mean" and "sum", and its only exception is the
  \<^verbatim>\<open>ValueError\<close> of the helper for any other string.
\<close>

theorem binary_cross_entropy_no_validation:
  assumes "broadcast_shapes (shape inputs) (shape targets) = Inr sh"
  shows "\<exists>loss. shape loss = sh
           \<and> (\<forall>r. binary_cross_entropy inputs targets r = reduce loss r)
           \<and> (\<forall>r. r \<in> {''none'', ''mean'', ''sum''} \<longrightarrow>
                  (\<exists>out. binary_cross_entropy inputs targets r = Inr out))
           \<and> (\<forall>r. r \<notin> {''none'', ''mean'', ''sum''} \<longrightarrow>
                  binary_cross_entropy inputs targets r = Inl ValueError)"
proof -
  from binary_cross_entropy_run [OF assms]
  obtain loss where run: "\<And>r. binary_cross_entropy inputs targets r = reduce loss r"
    and sh: "shape loss = sh"
    by blast
  have ok: "\<exists>out. binary_cross_entropy inputs targets r = Inr out"
    if "r \<in> {''none'', ''mean'', ''sum''}" for r
    using that by (auto simp: run reduce_def)
  have bad: "binary_cross_entropy inputs targets r = Inl ValueError"
    if "r \<notin> {''none'', ''mean'', ''sum''}" for r
    using that by (simp add: run reduce_def)
  show ?thesis using run sh ok bad by blast
qed

theorem binary_cross_entropy_no_validation_witness:
  "broadcast_shapes (shape \<lparr>shape = [2], elems = [2, - 3 :: real]\<rparr>)
       (shape \<lparr>shape = [1], elems = [5 :: real]\<rparr>) = Inr [2]
   \<and> (\<exists>out. binary_cross_entropy \<lparr>shape = [2], elems = [2, - 3]\<rparr>
                \<lparr>shape = [1], elems = [5]\<rparr> ''none'' = Inr out)
   \<and> (\<exists>out. binary_cross_entropy \<lparr>shape = [2], elems = [2, - 3]\<rparr>
                \<lparr>shape = [1], elems = [5]\<rparr> ''mean'' = Inr out)
   \<and> (\<exists>out. binary_cross_entropy \<lparr>shape = [2], elems = [2, - 3]\<rparr>
                \<lparr>shape = [1], elems = [5]\<rparr> ''sum'' = Inr out)
   \<and> binary_cross_entropy \<lparr>shape = [2], elems = [2, - 3]\<rparr>
         \<lparr>shape = [1], elems = [5]\<rparr> ''max'' = Inl ValueError"
proof -
  let ?I = "\<lparr>shape = [2], elems = [2, - 3 :: real]\<rparr>"
  let ?T = "\<lparr>shape = [1], elems = [5 :: real]\<rparr>"
  have bs: "broadcast_shapes (shape ?I) (shape ?T) = Inr [2]"
    by (simp add: broadcast_shapes_def broadcast_dim_def)
  from binary_cross_entropy_no_validation [OF bs]
  obtain loss where
    ok: "\<And>r. r \<in> {''none'', ''mean'', ''sum''} \<Longrightarrow>
           \<exists>out. binary_cross_entropy ?I ?T r = Inr out"
    and bad: "\<And>r. r \<notin> {''none'', ''mean'', ''sum''} \<Longrightarrow>
           binary_cross_entropy ?I ?T r = Inl ValueError"
    by blast
  show ?thesis
    using bs ok [of "''none''"] ok [of "''mean''"] ok [of "''sum''"] bad [of "''max''"]
    by simp
qed

section \<open>Smooth L1 loss\<close>

lemma smooth_l1_loss_run:
  assumes "shape predictions = shape targets"
  shows "\<exists>loss. (\<forall>r. smooth_l1_loss predictions targets beta r = reduce loss r)
           \<and> shape loss = shape predictions
           \<and> (\<forall>ix. valid_index (shape predictions) ix \<longrightarrow>
                 item loss ix =
                   (let d = item predictions ix - item targets ix
                    in if d < beta then 0.5 * d\<^sup>2 / beta else \<bar>d\<bar> - 0.5 * beta))"
proof -
  let ?sh = "shape predictions"
  define diff where "diff = array_of_fn ?sh (\<lambda>ix.
    item predictions (bc_index ?sh ix) - item targets (bc_index ?sh ix))"
  define loss where "loss = array_of_fn ?sh (\<lambda>ix.
    if item (unary_op (\<lambda>x. x < beta) diff) (bc_index ?sh ix)
    then item (unary_op (\<lambda>x. 0.5 * x\<^sup>2 / beta) diff) (bc_index ?sh ix)
    else item (unary_op (\<lambda>x. \<bar>x\<bar> - 0.5 * beta) diff) (bc_index ?sh ix))"
  have sub: "subtract predictions targets = Inr diff"
    unfolding subtract_def diff_def using assms by (simp add: binary_op_Inr)
  have shd: "shape diff = ?sh" by (simp add: diff_def)
  have wh: "mx_where (unary_op (\<lambda>x. x < beta) diff)
              (unary_op (\<lambda>x. 0.5 * x\<^sup>2 / beta) diff)
              (unary_op (\<lambda>x. \<bar>x\<bar> - 0.5 * beta) diff) = Inr loss"
    using shd by (simp add: mx_where_def loss_def cong: if_cong)
  have run: "smooth_l1_loss predictions targets beta r = reduce loss r" for r
    unfolding smooth_l1_loss_def sub ebind_Inr wh using assms by simp
  have val: "item loss ix =
      (let d = item predictions ix - item targets ix
       in if d < beta then 0.5 * d\<^sup>2 / beta else \<bar>d\<bar> - 0.5 * beta)"
    if ix: "valid_index ?sh ix" for ix
  proof -
    have d: "item diff ix = item predictions ix - item targets ix"
      using ix by (simp add: diff_def item_array_of_fn bc_index_same)
    have vd: "valid_index (shape diff) ix" using ix by (simp add: shd)
    show ?thesis
      using ix vd by (simp add: loss_def item_array_of_fn bc_index_same item_unary_op d Let_def)
  qed
  show ?thesis using run val by (auto simp: loss_def)
qed

text \<open>
  For a positive \<open>beta\<close> the value the source computes for a difference agrees with the
  documented formula exactly when the difference is at least \<open>- beta\<close>.
\<close>

lemma signed_branch_agrees:
  assumes beta: "0 < beta"
  shows "(if d < beta then 0.5 * d\<^sup>2 / beta else \<bar>d\<bar> - 0.5 * beta) = smooth_l1_formula beta d
           \<longleftrightarrow> - beta \<le> d"
proof -
  consider (inner) "\<bar>d\<bar> < beta" | (upper) "beta \<le> d" | (lower) "d \<le> - beta"
    by linarith
  then show ?thesis
  proof cases
    case inner
    then show ?thesis by (auto simp: smooth_l1_formula_def)
  next
    case upper
    then show ?thesis using beta by (auto simp: smooth_l1_formula_def)
  next
    case lower
    have eq: "0.5 * d\<^sup>2 / beta = - d - 0.5 * beta \<longleftrightarrow> (d + beta)\<^sup>2 = 0"
      using beta by (simp add: field_simps power2_eq_square) linarith
    have "0.5 * d\<^sup>2 / beta = \<bar>d\<bar> - 0.5 * beta \<longleftrightarrow> d = - beta"
      using lower beta eq by (auto simp: abs_if)
    then show ?thesis using lower beta by (auto simp: smooth_l1_formula_def)
  qed
qed


lemma smooth_l1_loss_agreement:
  assumes "shape predictions = shape targets" and "0 < beta"
  shows "\<exists>loss. smooth_l1_loss predictions targets beta ''none'' = Inr loss
           \<and> shape loss = shape predictions
           \<and> (\<forall>ix. valid_index (shape predictions) ix \<longrightarrow>
                 (item loss ix = smooth_l1_formula beta (item predictions ix - item targets ix)
                    \<longleftrightarrow> - beta \<le> item predictions ix - item targets ix))"
proof -
  from smooth_l1_loss_run [OF assms(1), of beta]
  obtain loss where run: "\<And>r. smooth_l1_loss predictions targets beta r = reduce loss r"
    and sh: "shape loss = shape predictions"
    and val: "\<And>ix. valid_index (shape predictions) ix \<Longrightarrow>
        item loss ix =
          (let d = item predictions ix - item targets ix
           in if d < beta then 0.5 * d\<^sup>2 / beta else \<bar>d\<bar> - 0.5 * beta)"
    by blast
  have "item loss ix = smooth_l1_formula beta (item predictions ix - item targets ix)
      \<longleftrightarrow> - beta \<le> item predictions ix - item targets ix"
    if "valid_index (shape predictions) ix" for ix
    unfolding val [OF that] Let_def
    using assms(2) by (rule signed_branch_agrees)
  then show ?thesis using run [of "''none''"] sh by auto
qed

text \<open>
  Claim C1 states that the elementwise result equals the documented formula at every
  position, the signed test \<open>diff < beta\<close> of the source selecting the same values as
  \<open>\<bar>diff\<bar> < beta\<close>. The source does not do that: for a difference below \<open>- beta\<close>
  the signed test holds and the quadratic branch is taken, where the documented formula
  takes the linear one. With prediction 0, target 3 and beta 1 the difference is \<open>- 3\<close>:
  the source returns 4.5 and the documented formula gives 2.5.
\<close>

theorem smooth_l1_loss_signed_branch:
  "smooth_l1_loss \<lparr>shape = [1], elems = [0]\<rparr> \<lparr>shape = [1], elems = [3]\<rparr> 1 ''none''
     = Inr \<lparr>shape = [1], elems = [9 / 2]\<rparr>
   \<and> smooth_l1_formula 1 (0 - 3) = 5 / 2"
  by (simp add: smooth_l1_loss_def subtract_def binary_op_def mx_where_def unary_op_def
      array_of_fn_def item_def bc_index_def reduce_def smooth_l1_formula_def
      broadcast_shapes_def)

section \<open>Kullback-Leibler divergence\<close>

text \<open>
  Claim C6. For all inputs and targets whose shapes broadcast and every axis of the
  broadcast shape, \<^verbatim>\<open>kl_div_loss\<close> with reduction "none" returns an array of that
  shape without the axis; its element at every position is the sum, over the axis, of
  \<open>exp t * (t - i)\<close> for the elements \<open>t\<close> of targets and \<open>i\<close> of inputs. When
  inputs and targets are the same array every element of the loss is zero.
\<close>

theorem kl_div_loss_formula:
  assumes bs: "broadcast_shapes (shape targets) (shape inputs) = Inr sh"
    and ax: "normalize_axis (length sh) axis = Inr ax"
  shows "\<exists>loss. kl_div_loss inputs targets axis ''none'' = Inr loss
           \<and> shape loss = remove_at ax sh
           \<and> (\<forall>ix. valid_index (remove_at ax sh) ix \<longrightarrow>
                 item loss ix =
                   (\<Sum>k<sh ! ax.
                      exp (item targets (bc_index (shape targets) (insert_at ax k ix)))
                        * (item targets (bc_index (shape targets) (insert_at ax k ix))
                           - item inputs (bc_index (shape inputs) (insert_at ax k ix)))))
           \<and> (inputs = targets \<longrightarrow>
                 (\<forall>ix. valid_index (remove_at ax sh) ix \<longrightarrow> item loss ix = 0))"
proof -
  let ?T = "\<lambda>jx. item targets (bc_index (shape targets) jx)"
  let ?I = "\<lambda>jx. item inputs (bc_index (shape inputs) jx)"
  define d where "d = array_of_fn sh (\<lambda>jx. ?T jx - ?I jx)"
  define p where "p = array_of_fn sh (\<lambda>jx.
    item (unary_op exp targets) (bc_index (shape targets) jx) * item d (bc_index sh jx))"
  define loss where "loss = array_of_fn (remove_at ax sh)
    (\<lambda>ix. sum_list (map (\<lambda>k. item p (insert_at ax k ix)) [0..<sh ! ax]))"
  have shd: "shape d = sh" by (simp add: d_def)
  have shp: "shape p = sh" by (simp add: p_def)
  have sub: "subtract targets inputs = Inr d"
    unfolding subtract_def d_def using bs by (simp add: binary_op_Inr)
  have mul: "multiply (unary_op exp targets) d = Inr p"
    unfolding multiply_def p_def
    using broadcast_shapes_absorb [OF bs] by (simp add: binary_op_Inr shd)
  have red: "sum_axis p axis = Inr loss"
    unfolding sum_axis_def loss_def using ax by (simp add: reduce_axis_Inr shp)
  have run: "kl_div_loss inputs targets axis ''none'' = Inr loss"
    by (simp add: kl_div_loss_def sub mul red reduce_def)
  have cell: "item p jx = exp (?T jx) * (?T jx - ?I jx)" if jx: "valid_index sh jx" for jx
  proof -
    have vt: "valid_index (shape targets) (bc_index (shape targets) jx)"
      using bs jx by (rule bc_index_valid)
    show ?thesis
      using jx vt by (simp add: p_def d_def item_array_of_fn item_unary_op bc_index_same)
  qed
  have val: "item loss ix =
      (\<Sum>k<sh ! ax. exp (?T (insert_at ax k ix))
                      * (?T (insert_at ax k ix) - ?I (insert_at ax k ix)))"
    if ix: "valid_index (remove_at ax sh) ix" for ix
  proof -
    have "item p (insert_at ax k ix) =
        exp (?T (insert_at ax k ix)) * (?T (insert_at ax k ix) - ?I (insert_at ax k ix))"
      if "k < sh ! ax" for k
      using valid_index_insert_at [OF ix normalize_axis_less [OF ax] that] by (rule cell)
    then have "sum_list (map (\<lambda>k. item p (insert_at ax k ix)) [0..<sh ! ax]) =
        (\<Sum>k<sh ! ax. exp (?T (insert_at ax k ix))
                        * (?T (insert_at ax k ix) - ?I (insert_at ax k ix)))"
      by (rule sum_list_upt_cong)
    then show ?thesis using ix by (simp add: loss_def item_array_of_fn)
  qed
  have zero: "item loss ix = 0"
    if "inputs = targets" and ix: "valid_index (remove_at ax sh) ix" for ix
    using val [OF ix] that(1) by simp
  show ?thesis using run val zero by (auto simp: loss_def)
qed


theorem kl_div_loss_formula_witness:
  "broadcast_shapes (shape \<lparr>shape = [1, 2], elems = [0, 0 :: real]\<rparr>)
       (shape \<lparr>shape = [1, 2], elems = [1, 2 :: real]\<rparr>) = Inr [1, 2]
   \<and> normalize_axis (length [1, 2 :: nat]) (- 1) = Inr 1
   \<and> valid_index (remove_at 1 [1, 2]) [0]
   \<and> (\<exists>loss. kl_div_loss \<lparr>shape = [1, 2], elems = [1, 2]\<rparr>
                 \<lparr>shape = [1, 2], elems = [0, 0]\<rparr> (- 1) ''none'' = Inr loss
          \<and> shape loss = [1] \<and> item loss [0] = - 3)
   \<and> (\<exists>loss. kl_div_loss \<lparr>shape = [1, 2], elems = [0, 0]\<rparr>
                 \<lparr>shape = [1, 2], elems = [0, 0]\<rparr> (- 1) ''none'' = Inr loss
          \<and> shape loss = [1] \<and> item loss [0] = 0)"
proof -
  let ?I = "\<lparr>shape = [1, 2], elems = [1, 2 :: real]\<rparr>"
  let ?T = "\<lparr>shape = [1, 2], elems = [0, 0 :: real]\<rparr>"
  have bs: "broadcast_shapes (shape ?T) (shape ?I) = Inr [1, 2]" by simp
  have bs': "broadcast_shapes (shape ?T) (shape ?T) = Inr [1, 2]" by simp
  have ax: "normalize_axis (length [1, 2 :: nat]) (- 1) = Inr 1"
    by (simp add: normalize_axis_def)
  have ix: "valid_index (remove_at 1 [1, 2]) [0]"
    by (simp add: remove_at_def valid_index_def)
  from kl_div_loss_formula [OF bs ax]
  obtain loss where run: "kl_div_loss ?I ?T (- 1) ''none'' = Inr loss"
    and sh: "shape loss = remove_at 1 [1, 2]"
    and val: "\<And>ix. valid_index (remove_at 1 [1, 2]) ix \<Longrightarrow>
           item loss ix =
             (\<Sum>k<[1, 2] ! 1.
                exp (item ?T (bc_index (shape ?T) (insert_at 1 k ix)))
                  * (item ?T (bc_index (shape ?T) (insert_at 1 k ix))
                     - item ?I (bc_index (shape ?I) (insert_at 1 k ix))))"
    by blast
  have v: "item loss [0] = - 3"
    using val [OF ix]
    by (simp add: numeral_2_eq_2 insert_at_def bc_index_def item_def)
  from kl_div_loss_formula [OF bs' ax]
  obtain loss' where run': "kl_div_loss ?T ?T (- 1) ''none'' = Inr loss'"
    and sh': "shape loss' = remove_at 1 [1, 2]"
    and zero: "\<And>ix. valid_index (remove_at 1 [1, 2]) ix \<Longrightarrow> item loss' ix = 0"
    by blast
  have s1: "shape loss = [1]" using sh by (simp add: remove_at_def)
  have s2: "shape loss' = [1]" using sh' by (simp add: remove_at_def)
  show ?thesis
    using bs ax ix run s1 v run' s2 zero [OF ix] by blast
qed

section \<open>Cross entropy\<close>

lemma cross_entropy_last_axis:
  assumes l: "shape logits = s @ [c]" and t: "shape targets = s" and s: "s \<noteq> []"
    and axis: "axis = - 1 \<or> axis = int (length s)"
    and eps: "0 \<le> \<epsilon>" "\<epsilon> < 1"
  shows "\<exists>loss. (\<forall>r. cross_entropy logits targets None axis \<epsilon> r = reduce loss r)
           \<and> shape loss = s
           \<and> (\<forall>ix. valid_index s ix \<longrightarrow>
                 item loss ix =
                   ln (\<Sum>k<c. exp (item logits (ix @ [k])))
                   - (1 - \<epsilon>) * item logits (ix @ [wrap_index c (item targets ix)])
                   - \<epsilon> * ((\<Sum>k<c. item logits (ix @ [k])) / real c))"
proof -
  let ?SC = "\<lambda>ix. item logits (ix @ [wrap_index c (item targets ix)])"
  let ?LSE = "\<lambda>ix. ln (\<Sum>k<c. exp (item logits (ix @ [k])))"
  let ?MEAN = "\<lambda>ix. (\<Sum>k<c. item logits (ix @ [k])) / real c"
  obtain d ds where sd: "s = d # ds" using s by (cases s) auto
  have l0: "shape0 logits = Inr d" by (rule shape0_Cons) (simp add: l sd)
  have t0: "shape0 targets = Inr d" by (rule shape0_Cons) (simp add: t sd)
  from gather_last [OF l t axis]
  obtain g score where g: "take_along_axis logits (expand_last targets) axis = Inr g"
    and sq: "squeeze_last g = Inr score"
    and shs: "shape score = s"
    and score: "\<And>ix. valid_index s ix \<Longrightarrow> item score ix = ?SC ix"
    by (auto simp: ebind_eq_Inr)
  from reduce_last [OF l axis, of "\<lambda>xs. ln (sum_list (map exp xs))"]
  obtain lse where lse: "logsumexp logits axis = Inr lse" and shl: "shape lse = s"
    and lse_val: "\<And>ix. valid_index s ix \<Longrightarrow>
        item lse ix = ln (sum_list (map exp (map (\<lambda>k. item logits (ix @ [k])) [0..<c])))"
    by (auto simp: logsumexp_def)
  have lse_item: "item lse ix = ?LSE ix" if "valid_index s ix" for ix
    using lse_val [OF that] sum_list_upt_cong [of c "\<lambda>k. exp (item logits (ix @ [k]))"
        "\<lambda>k. exp (item logits (ix @ [k]))"]
    by (simp add: comp_def)
  from reduce_last [OF l axis, of "\<lambda>xs. sum_list xs / real (length xs)"]
  obtain mean where mean: "mean_axis logits axis = Inr mean" and shm: "shape mean = s"
    and mean_val: "\<And>ix. valid_index s ix \<Longrightarrow>
        item mean ix = sum_list (map (\<lambda>k. item logits (ix @ [k])) [0..<c])
                         / real (length (map (\<lambda>k. item logits (ix @ [k])) [0..<c]))"
    by (auto simp: mean_axis_def)
  have mean_item: "item mean ix = ?MEAN ix" if "valid_index s ix" for ix
    using mean_val [OF that] sum_list_upt_cong [of c "\<lambda>k. item logits (ix @ [k])"
        "\<lambda>k. item logits (ix @ [k])"]
    by simp
  show ?thesis
  proof (cases "\<epsilon> > 0")
    case True
    let ?adj = "unary_op (\<lambda>x. (1 - \<epsilon>) * x) score"
    let ?smo = "unary_op (\<lambda>x. - x * \<epsilon>) mean"
    have sha: "shape ?adj = s" by (simp add: shs)
    have shsm: "shape ?smo = s" by (simp add: shm)
    from binary_op_same_shape [OF shl sha, of "\<lambda>x y. x - y"]
    obtain df where df: "subtract lse ?adj = Inr df" and shdf: "shape df = s"
      and df_val: "\<And>ix. valid_index s ix \<Longrightarrow> item df ix = item lse ix - item ?adj ix"
      by (auto simp: subtract_def)
    from binary_op_same_shape [OF shdf shsm, of "\<lambda>x y. x + y"]
    obtain loss where loss: "add df ?smo = Inr loss" and shloss: "shape loss = s"
      and loss_val: "\<And>ix. valid_index s ix \<Longrightarrow> item loss ix = item df ix + item ?smo ix"
      by (auto simp: add_def)
    have run: "cross_entropy logits targets None axis \<epsilon> r = reduce loss r" for r
      unfolding cross_entropy_def Let_def l0 t0 ebind_Inr g sq lse mean df loss option.case
      using eps True by simp
    have val: "item loss ix = ?LSE ix - (1 - \<epsilon>) * ?SC ix - \<epsilon> * ?MEAN ix"
      if ix: "valid_index s ix" for ix
    proof -
      have "item ?adj ix = (1 - \<epsilon>) * ?SC ix"
        using ix by (simp add: item_unary_op shs score)
      moreover have "item ?smo ix = - ?MEAN ix * \<epsilon>"
        using ix by (simp add: item_unary_op shm mean_item)
      ultimately show ?thesis
        using loss_val [OF ix] df_val [OF ix] lse_item [OF ix] by simp
    qed
    show ?thesis using run shloss val by blast
  next
    case False
    then have e0: "\<epsilon> = 0" using eps by simp
    from binary_op_same_shape [OF shl shs, of "\<lambda>x y. x - y"]
    obtain loss where loss: "subtract lse score = Inr loss" and shloss: "shape loss = s"
      and loss_val: "\<And>ix. valid_index s ix \<Longrightarrow> item loss ix = item lse ix - item score ix"
      by (auto simp: subtract_def)
    have run: "cross_entropy logits targets None axis \<epsilon> r = reduce loss r" for r
      unfolding cross_entropy_def Let_def l0 t0 ebind_Inr g sq lse loss option.case
      using e0 by simp
    have val: "item loss ix = ?LSE ix - (1 - \<epsilon>) * ?SC ix - \<epsilon> * ?MEAN ix"
      if ix: "valid_index s ix" for ix
      using loss_val [OF ix] lse_item [OF ix] score [OF ix] e0 by simp
    show ?thesis using run shloss val by blast
  qed
qed


text \<open>
  With the classes on the last axis the formulas of the spec hold. Let logits have shape
  \<open>s @ [c]\<close> with \<open>axis\<close> naming the last axis, let targets have the batch shape \<open>s\<close>
  with at least one dimension and hold class indices in \<open>[0, c)\<close>, let no weights be
  given and let \<open>0 \<le> \<epsilon> < 1\<close> be the label smoothing. Then \<^verbatim>\<open>cross_entropy\<close> with
  reduction "none" returns an array of shape \<open>s\<close> whose element at every batch position
  is logsumexp of the logits over the classes minus the logit at the target class when
  \<open>\<epsilon> = 0\<close>, and logsumexp minus \<open>(1 - \<epsilon>)\<close> times that logit minus \<open>\<epsilon>\<close> times the
  mean of the logits over the classes when \<open>\<epsilon> > 0\<close>.
\<close>

theorem cross_entropy_formula:
  assumes "shape logits = s @ [c]" and "shape targets = s" and "s \<noteq> []"
    and "axis = - 1 \<or> axis = int (length s)"
    and "0 \<le> \<epsilon>" and "\<epsilon> < 1"
    and range: "\<forall>ix. valid_index s ix \<longrightarrow> 0 \<le> item targets ix \<and> item targets ix < int c"
  shows "\<exists>loss. cross_entropy logits targets None axis \<epsilon> ''none'' = Inr loss
           \<and> shape loss = s
           \<and> (\<forall>ix. valid_index s ix \<longrightarrow>
                 item loss ix =
                   (if \<epsilon> = 0
                    then ln (\<Sum>k<c. exp (item logits (ix @ [k])))
                         - item logits (ix @ [nat (item targets ix)])
                    else ln (\<Sum>k<c. exp (item logits (ix @ [k])))
                         - (1 - \<epsilon>) * item logits (ix @ [nat (item targets ix)])
                         - \<epsilon> * ((\<Sum>k<c. item logits (ix @ [k])) / real c)))"
proof -
  from cross_entropy_last_axis [OF assms(1-6)]
  obtain loss where run: "\<And>r. cross_entropy logits targets None axis \<epsilon> r = reduce loss r"
    and sh: "shape loss = s"
    and val: "\<And>ix. valid_index s ix \<Longrightarrow>
        item loss ix =
          ln (\<Sum>k<c. exp (item logits (ix @ [k])))
          - (1 - \<epsilon>) * item logits (ix @ [wrap_index c (item targets ix)])
          - \<epsilon> * ((\<Sum>k<c. item logits (ix @ [k])) / real c)"
    by blast
  have "wrap_index c (item targets ix) = nat (item targets ix)" if "valid_index s ix" for ix
    using range that by (auto simp: wrap_index_def)
  then have "item loss ix =
      (if \<epsilon> = 0
       then ln (\<Sum>k<c. exp (item logits (ix @ [k])))
            - item logits (ix @ [nat (item targets ix)])
       else ln (\<Sum>k<c. exp (item logits (ix @ [k])))
            - (1 - \<epsilon>) * item logits (ix @ [nat (item targets ix)])
            - \<epsilon> * ((\<Sum>k<c. item logits (ix @ [k])) / real c))"
    if "valid_index s ix" for ix
    using val [OF that] that by simp
  then show ?thesis using run [of "''none''"] sh by (auto simp: reduce_def)
qed

theorem cross_entropy_formula_witness:
  "(\<exists>loss. cross_entropy \<lparr>shape = [2, 2], elems = [1, 2, 3, 4]\<rparr>
              \<lparr>shape = [2], elems = [1, 0]\<rparr> None (- 1) 0 ''none'' = Inr loss
        \<and> shape loss = [2]
        \<and> item loss [0] = ln (exp 1 + exp 2) - 2
        \<and> item loss [1] = ln (exp 3 + exp 4) - 3)
   \<and> (\<exists>loss. cross_entropy \<lparr>shape = [2, 2], elems = [1, 2, 3, 4]\<rparr>
              \<lparr>shape = [2], elems = [1, 0]\<rparr> None (- 1) (1 / 2) ''none'' = Inr loss
        \<and> shape loss = [2]
        \<and> item loss [0] = ln (exp 1 + exp 2) - (1 - 1 / 2) * 2 - 1 / 2 * ((1 + 2) / 2))"
proof -
  let ?L = "\<lparr>shape = [2, 2], elems = [1, 2, 3, 4 :: real]\<rparr>"
  let ?T = "\<lparr>shape = [2], elems = [1, 0 :: int]\<rparr>"
  have l: "shape ?L = [2] @ [2]" by simp
  have t: "shape ?T = [2]" by simp
  have s: "[2 :: nat] \<noteq> []" by simp
  have axis: "(- 1 :: int) = - 1 \<or> (- 1 :: int) = int (length [2 :: nat])" by simp
  have range: "\<forall>ix. valid_index [2] ix \<longrightarrow> 0 \<le> item ?T ix \<and> item ?T ix < int 2"
    by (auto simp: valid_index_Cons item_def less_2_cases_iff)
  have v0: "valid_index [2] [0]" and v1: "valid_index [2] [1]"
    by (simp_all add: valid_index_def)
  from cross_entropy_formula [OF l t s axis _ _ range, of 0]
  obtain loss where run: "cross_entropy ?L ?T None (- 1) 0 ''none'' = Inr loss"
    and sh: "shape loss = [2]"
    and val: "\<And>ix. valid_index [2] ix \<Longrightarrow>
        item loss ix = ln (\<Sum>k<2. exp (item ?L (ix @ [k]))) - item ?L (ix @ [nat (item ?T ix)])"
    by auto
  have a0: "item loss [0] = ln (exp 1 + exp 2) - 2"
    using val [OF v0] by (simp add: item_def numeral_2_eq_2)
  have a1: "item loss [1] = ln (exp 3 + exp 4) - 3"
    using val [OF v1] by (simp add: item_def numeral_2_eq_2)
  from cross_entropy_formula [OF l t s axis _ _ range, of "1 / 2"]
  obtain loss' where run': "cross_entropy ?L ?T None (- 1) (1 / 2) ''none'' = Inr loss'"
    and sh': "shape loss' = [2]"
    and val': "\<And>ix. valid_index [2] ix \<Longrightarrow>
        item loss' ix = ln (\<Sum>k<2. exp (item ?L (ix @ [k])))
          - (1 - 1 / 2) * item ?L (ix @ [nat (item ?T ix)])
          - 1 / 2 * ((\<Sum>k<2. item ?L (ix @ [k])) / real 2)"
    by auto
  have b0: "item loss' [0] = ln (exp 1 + exp 2) - (1 - 1 / 2) * 2 - 1 / 2 * ((1 + 2) / 2)"
    using val' [OF v0] by (simp add: item_def numeral_2_eq_2)
  show ?thesis using run sh a0 a1 run' sh' b0 by blast
qed

text \<open>
  Claim C3 states the two formulas for all logits and targets that satisfy the
  preconditions, whatever the class axis is. The source computes them only when the
  classes are on the last axis. For logits of shape (2, 3, 2) with the classes on axis
  1 and targets of shape (2, 2) holding class indices in \<open>[0, 3)\<close>, both preconditions
  hold (the label smoothing is in \<open>[0, 1)\<close> and the first dimensions agree), yet the
  call raises with and without label smoothing: the index array is built as
  \<^verbatim>\<open>targets[..., None]\<close> and the gathered scores are squeezed at the last dimension,
  whatever \<^verbatim>\<open>axis\<close> is, so no loss is computed.
\<close>

theorem cross_entropy_formula_axis_not_last:
  "cross_entropy \<lparr>shape = [2, 3, 2], elems = [1, 2, 3, 4, 5, 6, 7, 8, 9, 10, 11, 12]\<rparr>
       \<lparr>shape = [2, 2], elems = [2, 0, 1, 1]\<rparr> None 1 0 ''none'' = Inl ValueError
   \<and> cross_entropy \<lparr>shape = [2, 3, 2], elems = [1, 2, 3, 4, 5, 6, 7, 8, 9, 10, 11, 12]\<rparr>
       \<lparr>shape = [2, 2], elems = [2, 0, 1, 1]\<rparr> None 1 (1 / 2) ''none'' = Inl ValueError
   \<and> shape0 \<lparr>shape = [2, 3, 2], elems = [1, 2, 3, 4, 5, 6, 7, 8, 9, 10, 11, 12 :: real]\<rparr>
       = shape0 \<lparr>shape = [2, 2], elems = [2, 0, 1, 1 :: int]\<rparr>
   \<and> shape \<lparr>shape = [2, 2], elems = [2, 0, 1, 1 :: int]\<rparr>
       = remove_at 1 (shape \<lparr>shape = [2, 3, 2], elems = [1, 2, 3, 4, 5, 6, 7, 8, 9, 10, 11, 12 :: real]\<rparr>)
   \<and> list_all (\<lambda>t. 0 \<le> t \<and> t < 3) (elems \<lparr>shape = [2, 2], elems = [2, 0, 1, 1 :: int]\<rparr>)"
  by (simp add: cross_entropy_def shape0_def take_along_axis_def
      normalize_axis_def expand_last_def squeeze_last_def remove_at_def broadcast_dim_def)

lemma cross_entropy_factor:
  "cross_entropy logits targets weights axis \<epsilon> r =
     ebind (cross_entropy logits targets None axis \<epsilon> ''none'') (\<lambda>loss.
     ebind (case weights of
              None \<Rightarrow> Inr loss
            | Some w \<Rightarrow> if shape w \<noteq> shape targets then Inl ValueError else multiply loss w)
       (\<lambda>loss. reduce loss r))"
  unfolding cross_entropy_def
  by (simp add: ebind_assoc ebind_if Let_def cong: if_cong)


lemma raises_reduce: "raises (reduce loss r) \<longleftrightarrow> r \<notin> {''none'', ''mean'', ''sum''}"
  by (simp add: reduce_def)

lemma cross_entropy_well_shaped:
  assumes l: "shape logits = s @ [c]" and t: "shape targets = s" and s: "s \<noteq> []"
    and axis: "axis = - 1 \<or> axis = int (length s)"
    and eps: "0 \<le> \<epsilon>" "\<epsilon> < 1"
  shows "\<exists>loss. cross_entropy logits targets None axis \<epsilon> ''none'' = Inr loss
           \<and> shape loss = s
           \<and> (\<forall>r. cross_entropy logits targets None axis \<epsilon> r = reduce loss r)
           \<and> (\<forall>w r. shape w \<noteq> s \<longrightarrow>
                  cross_entropy logits targets (Some w) axis \<epsilon> r = Inl ValueError)
           \<and> (\<forall>w r. shape w = s \<longrightarrow>
                  (\<exists>weighted. multiply loss w = Inr weighted \<and> shape weighted = s
                     \<and> (\<forall>ix. valid_index s ix \<longrightarrow>
                           item weighted ix = item loss ix * item w ix)
                     \<and> cross_entropy logits targets (Some w) axis \<epsilon> r = reduce weighted r))"
proof -
  from cross_entropy_last_axis [OF l t s axis eps]
  obtain loss where run: "\<And>r. cross_entropy logits targets None axis \<epsilon> r = reduce loss r"
    and sh: "shape loss = s"
    by blast
  have none: "cross_entropy logits targets None axis \<epsilon> ''none'' = Inr loss"
    by (simp add: run)
  have bad: "cross_entropy logits targets (Some w) axis \<epsilon> r = Inl ValueError"
    if "shape w \<noteq> s" for w r
    using that by (subst cross_entropy_factor) (simp add: none t)
  have good: "\<exists>weighted. multiply loss w = Inr weighted \<and> shape weighted = s
      \<and> (\<forall>ix. valid_index s ix \<longrightarrow> item weighted ix = item loss ix * item w ix)
      \<and> cross_entropy logits targets (Some w) axis \<epsilon> r = reduce weighted r"
    if w: "shape w = s" for w r
  proof -
    from binary_op_same_shape [OF sh w, of "\<lambda>x y. x * y"]
    obtain weighted where m: "multiply loss w = Inr weighted" and shw: "shape weighted = s"
      and val: "\<And>ix. valid_index s ix \<Longrightarrow> item weighted ix = item loss ix * item w ix"
      by (auto simp: multiply_def)
    have "cross_entropy logits targets (Some w) axis \<epsilon> r = reduce weighted r"
      by (subst cross_entropy_factor) (simp add: none t w m)
    then show ?thesis using m shw val by blast
  qed
  show ?thesis using none sh run bad good by blast
qed

text \<open>
  Claim C4, as amended. Each of the stated conditions makes \<^verbatim>\<open>cross_entropy\<close> raise,
  for all inputs: a label smoothing outside \<open>[0, 1)\<close> (then the first assertion fails),
  \<^verbatim>\<open>logits.shape[0]\<close> different from \<^verbatim>\<open>targets.shape[0]\<close>, weights given with a shape
  other than that of targets, or a reduction string that is not "none", "mean" or "sum".
  For logits with the classes on the last axis (shape \<open>s @ [c]\<close>, \<open>axis\<close> naming that
  axis) and targets of the batch shape \<open>s\<close> with at least one dimension, the converse
  holds too: the call raises if and only if one of the stated conditions holds. On these
  inputs, when none of them holds and weights are given, the call returns: the
  elementwise loss is multiplied elementwise by the weights, and the reduction of that
  product is the result. Whenever a call with weights returns at all, the weights have
  the shape of targets and the result is the reduction of the unweighted elementwise
  loss times the weights.
\<close>

theorem cross_entropy_failures:
  "(stated_failure logits targets weights \<epsilon> r \<longrightarrow>
      raises (cross_entropy logits targets weights axis \<epsilon> r))
   \<and> (\<not> (0 \<le> \<epsilon> \<and> \<epsilon> < 1) \<longrightarrow>
      cross_entropy logits targets weights axis \<epsilon> r = Inl AssertionError)
   \<and> (shape logits = s @ [c] \<and> shape targets = s \<and> s \<noteq> []
        \<and> (axis = - 1 \<or> axis = int (length s)) \<longrightarrow>
      (raises (cross_entropy logits targets weights axis \<epsilon> r)
         \<longleftrightarrow> stated_failure logits targets weights \<epsilon> r)
      \<and> (\<not> stated_failure logits targets (Some w) \<epsilon> r \<longrightarrow>
           (\<exists>loss weighted res.
              cross_entropy logits targets None axis \<epsilon> ''none'' = Inr loss
              \<and> multiply loss w = Inr weighted
              \<and> shape weighted = s
              \<and> (\<forall>ix. valid_index s ix \<longrightarrow> item weighted ix = item loss ix * item w ix)
              \<and> reduce weighted r = Inr res
              \<and> cross_entropy logits targets (Some w) axis \<epsilon> r = Inr res)))
   \<and> (cross_entropy logits targets (Some w) axis \<epsilon> r = Inr out \<longrightarrow>
      shape w = shape targets
      \<and> (\<exists>loss. cross_entropy logits targets None axis \<epsilon> ''none'' = Inr loss
            \<and> ebind (multiply loss w) (\<lambda>weighted. reduce weighted r) = Inr out))"
proof -
  have early: "cross_entropy logits targets weights axis \<epsilon> r = Inl AssertionError"
    if "\<not> (0 \<le> \<epsilon> \<and> \<epsilon> < 1)"
    using that by (simp add: cross_entropy_def)
  have fails: "raises (cross_entropy logits targets weights axis \<epsilon> r)"
    if "stated_failure logits targets weights \<epsilon> r"
  proof -
    from that consider (eps) "\<not> (0 \<le> \<epsilon> \<and> \<epsilon> < 1)"
      | (dim) "0 \<le> \<epsilon> \<and> \<epsilon> < 1" "shape0 logits \<noteq> shape0 targets"
      | (weights) w' where "weights = Some w'" "shape w' \<noteq> shape targets"
      | (mode) "r \<notin> {''none'', ''mean'', ''sum''}"
      by (auto simp: stated_failure_def split: option.splits)
    then show ?thesis
    proof cases
      case eps
      then show ?thesis by (simp add: early)
    next
      case dim
      then show ?thesis
        by (cases "shape0 logits"; cases "shape0 targets") (simp_all add: cross_entropy_def)
    next
      case weights
      then show ?thesis
        by (subst cross_entropy_factor) (simp add: raises_ebindI)
    next
      case mode
      then have "reduce loss r = Inl ValueError" for loss by (simp add: reduce_def)
      then show ?thesis
        by (subst cross_entropy_factor) (simp add: raises_ebindI)
    qed
  qed
  have only: "stated_failure logits targets weights \<epsilon> r"
    if dom: "shape logits = s @ [c]" "shape targets = s" "s \<noteq> []"
      "axis = - 1 \<or> axis = int (length s)"
    and rs: "raises (cross_entropy logits targets weights axis \<epsilon> r)"
  proof (rule ccontr)
    assume ns: "\<not> stated_failure logits targets weights \<epsilon> r"
    then have eps: "0 \<le> \<epsilon>" "\<epsilon> < 1" and mode: "r \<in> {''none'', ''mean'', ''sum''}"
      by (auto simp: stated_failure_def)
    from cross_entropy_well_shaped [OF dom eps]
    obtain loss where run: "\<And>r. cross_entropy logits targets None axis \<epsilon> r = reduce loss r"
      and good: "\<And>w r. shape w = s \<Longrightarrow>
          \<exists>weighted. cross_entropy logits targets (Some w) axis \<epsilon> r = reduce weighted r"
      by blast
    show False
    proof (cases weights)
      case None
      then show False using rs mode by (simp add: run raises_reduce)
    next
      case (Some w')
      then have "shape w' = s" using ns dom(2) by (simp add: stated_failure_def)
      from good [OF this, of r] Some rs mode show False by (auto simp: raises_reduce)
    qed
  qed
  have total: "\<exists>loss weighted res.
      cross_entropy logits targets None axis \<epsilon> ''none'' = Inr loss
      \<and> multiply loss w = Inr weighted
      \<and> shape weighted = s
      \<and> (\<forall>ix. valid_index s ix \<longrightarrow> item weighted ix = item loss ix * item w ix)
      \<and> reduce weighted r = Inr res
      \<and> cross_entropy logits targets (Some w) axis \<epsilon> r = Inr res"
    if dom: "shape logits = s @ [c]" "shape targets = s" "s \<noteq> []"
      "axis = - 1 \<or> axis = int (length s)"
    and ns: "\<not> stated_failure logits targets (Some w) \<epsilon> r"
  proof -
    from ns have eps: "0 \<le> \<epsilon>" "\<epsilon> < 1" and mode: "r \<in> {''none'', ''mean'', ''sum''}"
      and w: "shape w = s"
      using dom(2) by (auto simp: stated_failure_def)
    from cross_entropy_well_shaped [OF dom eps]
    obtain loss where none: "cross_entropy logits targets None axis \<epsilon> ''none'' = Inr loss"
      and good: "\<And>w r. shape w = s \<Longrightarrow>
          \<exists>weighted. multiply loss w = Inr weighted \<and> shape weighted = s
            \<and> (\<forall>ix. valid_index s ix \<longrightarrow> item weighted ix = item loss ix * item w ix)
            \<and> cross_entropy logits targets (Some w) axis \<epsilon> r = reduce weighted r"
      by blast
    from good [OF w, of r]
    obtain weighted where m: "multiply loss w = Inr weighted" and shw: "shape weighted = s"
      and val: "\<forall>ix. valid_index s ix \<longrightarrow> item weighted ix = item loss ix * item w ix"
      and run: "cross_entropy logits targets (Some w) axis \<epsilon> r = reduce weighted r"
      by blast
    from mode obtain res where res: "reduce weighted r = Inr res"
      by (auto simp: reduce_def)
    show ?thesis using none m shw val res run by auto
  qed
  have weighted: "shape w = shape targets
      \<and> (\<exists>loss. cross_entropy logits targets None axis \<epsilon> ''none'' = Inr loss
            \<and> ebind (multiply loss w) (\<lambda>weighted. reduce weighted r) = Inr out)"
    if run: "cross_entropy logits targets (Some w) axis \<epsilon> r = Inr out"
  proof -
    from run obtain loss
      where loss: "cross_entropy logits targets None axis \<epsilon> ''none'' = Inr loss"
      and rest: "ebind (if shape w \<noteq> shape targets then Inl ValueError else multiply loss w)
                   (\<lambda>weighted. reduce weighted r) = Inr out"
      by (subst (asm) cross_entropy_factor) (auto simp: ebind_eq_Inr)
    from rest have sh: "shape w = shape targets" by (auto split: if_splits)
    with rest have "ebind (multiply loss w) (\<lambda>weighted. reduce weighted r) = Inr out" by simp
    with loss sh show ?thesis by blast
  qed
  show ?thesis
    using early fails only total weighted by blast
qed

theorem cross_entropy_failures_witness:
  "stated_failure \<lparr>shape = [2, 2], elems = [1, 2, 3, 4]\<rparr> \<lparr>shape = [2], elems = [1, 0]\<rparr>
       (Some \<lparr>shape = [1], elems = [5]\<rparr>) 0 ''none''
   \<and> raises (cross_entropy \<lparr>shape = [2, 2], elems = [1, 2, 3, 4]\<rparr>
         \<lparr>shape = [2], elems = [1, 0]\<rparr> (Some \<lparr>shape = [1], elems = [5]\<rparr>) (- 1) 0 ''none'')
   \<and> cross_entropy \<lparr>shape = [2, 2], elems = [1, 2, 3, 4]\<rparr>
         \<lparr>shape = [2], elems = [1, 0]\<rparr> None (- 1) 1 ''none'' = Inl AssertionError
   \<and> \<not> stated_failure \<lparr>shape = [2, 2], elems = [1, 2, 3, 4]\<rparr> \<lparr>shape = [2], elems = [1, 0]\<rparr>
         None 0 ''mean''
   \<and> \<not> raises (cross_entropy \<lparr>shape = [2, 2], elems = [1, 2, 3, 4]\<rparr>
         \<lparr>shape = [2], elems = [1, 0]\<rparr> None (- 1) 0 ''mean'')
   \<and> \<not> stated_failure \<lparr>shape = [2, 2], elems = [1, 2, 3, 4]\<rparr> \<lparr>shape = [2], elems = [1, 0]\<rparr>
         (Some \<lparr>shape = [2], elems = [2, 3]\<rparr>) 0 ''sum''
   \<and> (\<exists>loss weighted res.
         cross_entropy \<lparr>shape = [2, 2], elems = [1, 2, 3, 4]\<rparr> \<lparr>shape = [2], elems = [1, 0]\<rparr>
           None (- 1) 0 ''none'' = Inr loss
         \<and> multiply loss \<lparr>shape = [2], elems = [2, 3]\<rparr> = Inr weighted
         \<and> shape weighted = [2]
         \<and> item weighted [0] = item loss [0] * 2
         \<and> item weighted [1] = item loss [1] * 3
         \<and> reduce weighted ''sum'' = Inr res
         \<and> cross_entropy \<lparr>shape = [2, 2], elems = [1, 2, 3, 4]\<rparr> \<lparr>shape = [2], elems = [1, 0]\<rparr>
             (Some \<lparr>shape = [2], elems = [2, 3]\<rparr>) (- 1) 0 ''sum'' = Inr res
         \<and> ebind (multiply loss \<lparr>shape = [2], elems = [2, 3]\<rparr>)
             (\<lambda>weighted. reduce weighted ''sum'') = Inr res)"
proof -
  let ?L = "\<lparr>shape = [2, 2], elems = [1, 2, 3, 4 :: real]\<rparr>"
  let ?T = "\<lparr>shape = [2], elems = [1, 0 :: int]\<rparr>"
  let ?V = "\<lparr>shape = [1], elems = [5 :: real]\<rparr>"
  let ?W = "\<lparr>shape = [2], elems = [2, 3 :: real]\<rparr>"
  have dom: "shape ?L = [2] @ [2] \<and> shape ?T = [2] \<and> [2 :: nat] \<noteq> []
      \<and> ((- 1 :: int) = - 1 \<or> (- 1 :: int) = int (length [2 :: nat]))"
    by simp
  have sf: "stated_failure ?L ?T (Some ?V) 0 ''none''"
    by (simp add: stated_failure_def)
  have a: "raises (cross_entropy ?L ?T (Some ?V) (- 1) 0 ''none'')"
    using cross_entropy_failures [where logits = ?L and targets = ?T and weights = "Some ?V"
        and \<epsilon> = 0 and r = "''none''" and axis = "- 1"] sf
    by blast
  have b: "cross_entropy ?L ?T None (- 1) 1 ''none'' = Inl AssertionError"
    using cross_entropy_failures [where logits = ?L and targets = ?T and weights = None
        and \<epsilon> = 1 and r = "''none''" and axis = "- 1"]
    by simp
  have nf: "\<not> stated_failure ?L ?T None 0 ''mean''"
    by (simp add: stated_failure_def shape0_def)
  have c: "\<not> raises (cross_entropy ?L ?T None (- 1) 0 ''mean'')"
    using cross_entropy_failures [where logits = ?L and targets = ?T and weights = None
        and \<epsilon> = 0 and r = "''mean''" and axis = "- 1" and s = "[2]" and c = 2] dom nf
    by blast
  have nw: "\<not> stated_failure ?L ?T (Some ?W) 0 ''sum''"
    by (simp add: stated_failure_def shape0_def)
  from cross_entropy_failures [where logits = ?L and targets = ?T and weights = "Some ?W"
      and \<epsilon> = 0 and r = "''sum''" and axis = "- 1" and s = "[2]" and c = 2 and w = ?W] dom nw
  obtain loss weighted res
    where none: "cross_entropy ?L ?T None (- 1) 0 ''none'' = Inr loss"
    and m: "multiply loss ?W = Inr weighted"
    and shw: "shape weighted = [2]"
    and val: "\<And>ix. valid_index [2] ix \<Longrightarrow> item weighted ix = item loss ix * item ?W ix"
    and red: "reduce weighted ''sum'' = Inr res"
    and run: "cross_entropy ?L ?T (Some ?W) (- 1) 0 ''sum'' = Inr res"
    by blast
  have v0: "item weighted [0] = item loss [0] * 2"
    using val [of "[0]"] by (simp add: valid_index_def item_def)
  have v1: "item weighted [1] = item loss [1] * 3"
    using val [of "[1]"] by (simp add: valid_index_def item_def)
  from cross_entropy_failures [where logits = ?L and targets = ?T and \<epsilon> = 0
      and r = "''sum''" and axis = "- 1" and w = ?W and out = res] run
  have again: "\<exists>loss'. cross_entropy ?L ?T None (- 1) 0 ''none'' = Inr loss'
      \<and> ebind (multiply loss' ?W) (\<lambda>weighted. reduce weighted ''sum'') = Inr res"
    by blast
  then have e: "ebind (multiply loss ?W) (\<lambda>weighted. reduce weighted ''sum'') = Inr res"
    using none by auto
  show ?thesis using sf a b nf c nw none m shw v0 v1 red run e by blast
qed

text \<open>
  The claim as stated, for all logits and targets, fails: for logits of shape (2, 3) and
  targets of shape (2, 2) none of the stated conditions holds, and the call raises,
  because the index array handed to the gather has three dimensions and the logits two.
  The targets must have the shape of the logits without the class axis.
\<close>

theorem cross_entropy_failures_counterexample:
  "cross_entropy \<lparr>shape = [2, 3], elems = [0, 0, 0, 0, 0, 0]\<rparr>
       \<lparr>shape = [2, 2], elems = [0, 0, 0, 0]\<rparr> None (- 1) 0 ''none'' = Inl ValueError
   \<and> \<not> stated_failure \<lparr>shape = [2, 3], elems = [0, 0, 0, 0, 0, 0]\<rparr>
         \<lparr>shape = [2, 2], elems = [0, 0, 0, 0]\<rparr> None 0 ''none''"
  by (simp add: cross_entropy_def shape0_def take_along_axis_def normalize_axis_def
      expand_last_def stated_failure_def)

text \<open>
  With the classes on the last axis \<^verbatim>\<open>nll_loss\<close> returns the batch shape, as
  \<^verbatim>\<open>cross_entropy\<close> does: each element is minus the input gathered at the target class.
\<close>

lemma nll_loss_last_axis:
  assumes "shape inputs = s @ [c]" and "shape targets = s"
    and "axis = - 1 \<or> axis = int (length s)"
  shows "\<exists>loss. (\<forall>r. nll_loss inputs targets axis r = reduce loss r)
           \<and> shape loss = s
           \<and> (\<forall>ix. valid_index s ix \<longrightarrow>
                 item loss ix = - item inputs (ix @ [wrap_index c (item targets ix)]))"
proof -
  from gather_last [OF assms]
  obtain g score where g: "take_along_axis inputs (expand_last targets) axis = Inr g"
    and sq: "squeeze_last g = Inr score"
    and shs: "shape score = s"
    and score: "\<And>ix. valid_index s ix \<Longrightarrow>
        item score ix = item inputs (ix @ [wrap_index c (item targets ix)])"
    by (auto simp: ebind_eq_Inr)
  have run: "nll_loss inputs targets axis r = reduce (unary_op uminus score) r" for r
    by (simp add: nll_loss_def g sq)
  have "item (unary_op uminus score) ix = - item inputs (ix @ [wrap_index c (item targets ix)])"
    if "valid_index s ix" for ix
    using that by (simp add: item_unary_op shs score)
  then show ?thesis using run shs by (intro exI [of _ "unary_op uminus score"]) simp
qed

text \<open>
  Claim C5 states that for every value of \<^verbatim>\<open>axis\<close> the output of \<^verbatim>\<open>cross_entropy\<close> and
  \<^verbatim>\<open>nll_loss\<close> with reduction "none" has the shape of the logits without the class axis.
  The source appends the index dimension at the end (\<^verbatim>\<open>targets[..., None]\<close>) and
  squeezes the last dimension (\<^verbatim>\<open>squeeze(-1)\<close>) whatever the axis is. For logits of shape
  (2, 3, 2) with the classes on axis 1 and targets of shape (2, 2), the expected output
  shape is (2, 2); the gather returns shape (2, 2, 2), and the squeeze of its last
  dimension raises in both functions.
\<close>

theorem axis_not_last_raises:
  "remove_at 1 (shape \<lparr>shape = [2, 3, 2], elems = [0, 1, 2, 3, 4, 5, 6, 7, 8, 9, 10, 11 :: real]\<rparr>)
     = [2, 2]
   \<and> shape \<lparr>shape = [2, 2], elems = [0, 1, 2, 0 :: int]\<rparr> = [2, 2]
   \<and> ebind (take_along_axis \<lparr>shape = [2, 3, 2], elems = [0, 1, 2, 3, 4, 5, 6, 7, 8, 9, 10, 11 :: real]\<rparr>
              (expand_last \<lparr>shape = [2, 2], elems = [0, 1, 2, 0]\<rparr>) 1) (\<lambda>g. Inr (shape g))
     = Inr [2, 2, 2]
   \<and> cross_entropy \<lparr>shape = [2, 3, 2], elems = [0, 1, 2, 3, 4, 5, 6, 7, 8, 9, 10, 11]\<rparr>
       \<lparr>shape = [2, 2], elems = [0, 1, 2, 0]\<rparr> None 1 0 ''none'' = Inl ValueError
   \<and> nll_loss \<lparr>shape = [2, 3, 2], elems = [0, 1, 2, 3, 4, 5, 6, 7, 8, 9, 10, 11]\<rparr>
       \<lparr>shape = [2, 2], elems = [0, 1, 2, 0]\<rparr> 1 ''none'' = Inl ValueError"
  by (simp add: cross_entropy_def nll_loss_def shape0_def take_along_axis_def
      normalize_axis_def expand_last_def squeeze_last_def remove_at_def broadcast_dim_def)

end
